theory Spec2Isabelle
  imports Complex_Main
begin

section \<open>Floats, exceptions and list reads\<close>

text \<open>
  The indicator functions of \<^verbatim>\<open>technical_indicators.py\<close> work on
  \<^verbatim>\<open>List[List[float]]\<close>. A float is modelled as an optional real: \<open>None\<close> is
  NaN (\<^verbatim>\<open>np.nan\<close>), \<open>Some x\<close> a number. Arithmetic is exact: binary
  rounding and overflow to an infinity are not part of the model. \<^verbatim>\<open>pd.notna\<close> is
  \<open>notna\<close>; it is also false on Python's \<^verbatim>\<open>None\<close>, so a variable that starts as
  \<^verbatim>\<open>None\<close> and is only ever tested with \<^verbatim>\<open>pd.notna\<close> is a float that starts as NaN.
  Lookbacks, periods and column indexes are natural numbers; the comparisons the source
  makes on \<^verbatim>\<open>lookback - 1\<close> are made on integers, as Python makes them.
\<close>

type_synonym fl = "real option"

abbreviation NaN :: fl where
  "NaN \<equiv> None"

definition notna :: "fl \<Rightarrow> bool" where
  "notna x = (x \<noteq> None)"

text \<open>The exceptions the modelled code can raise, with Python's message for each.\<close>

datatype error = IndexError | NoData | ZeroDivisionError

fun str_of_error :: "error \<Rightarrow> string" where
  "str_of_error IndexError = ''list index out of range''"
| "str_of_error NoData = ''No data''"
| "str_of_error ZeroDivisionError = ''float division by zero''"

text \<open>NaN-propagating arithmetic of two floats.\<close>

definition fadd :: "fl \<Rightarrow> fl \<Rightarrow> fl" where
  "fadd a b = (case (a, b) of (Some x, Some y) \<Rightarrow> Some (x + y) | _ \<Rightarrow> NaN)"

definition fsub :: "fl \<Rightarrow> fl \<Rightarrow> fl" where
  "fsub a b = (case (a, b) of (Some x, Some y) \<Rightarrow> Some (x - y) | _ \<Rightarrow> NaN)"

definition fmul :: "fl \<Rightarrow> fl \<Rightarrow> fl" where
  "fmul a b = (case (a, b) of (Some x, Some y) \<Rightarrow> Some (x * y) | _ \<Rightarrow> NaN)"

text \<open>
  A quotient of two floats. At every call below the divisor is not zero: the source tests
  it first, or it is a positive constant, or (in the weekly strategy) it is a mean of
  closes that the strategy has filtered to be positive. So the value at a zero divisor,
  which numpy would make an infinity, is never used.
\<close>

definition fdiv :: "fl \<Rightarrow> fl \<Rightarrow> fl" where
  "fdiv a b =
     (case (a, b) of
        (Some x, Some y) \<Rightarrow> (if y = 0 then NaN else Some (x / y))
      | _ \<Rightarrow> NaN)"

definition fabs :: "fl \<Rightarrow> fl" where
  "fabs a = map_option abs a"

text \<open>\<^verbatim>\<open>a > b\<close> on floats: false as soon as one side is NaN.\<close>

definition fgt :: "fl \<Rightarrow> fl \<Rightarrow> bool" where
  "fgt a b = (case (a, b) of (Some x, Some y) \<Rightarrow> x > y | _ \<Rightarrow> False)"

text \<open>
  Python's \<^verbatim>\<open>max(a, b)\<close> keeps its first argument unless the second compares
  greater; \<^verbatim>\<open>max(a, b, c)\<close> goes on from there with \<open>c\<close>.
\<close>

definition py_max :: "fl \<Rightarrow> fl \<Rightarrow> fl" where
  "py_max a b = (if fgt b a then b else a)"

text \<open>
  \<^verbatim>\<open>round(x, 2)\<close>: the nearest multiple of 1/100, a tie going to the even
  one; NaN stays NaN.
\<close>

definition round_half_even :: "real \<Rightarrow> int" where
  "round_half_even x =
     (let f = \<lfloor>x\<rfloor>; d = x - of_int f in
      if d < 1 / 2 then f
      else if 1 / 2 < d then f + 1
      else if even f then f else f + 1)"

definition round2 :: "fl \<Rightarrow> fl" where
  "round2 a = map_option (\<lambda>x. of_int (round_half_even (x * 100)) / 100) a"

text \<open>A list subscript \<^verbatim>\<open>xs[i]\<close> with \<open>i\<close> known to be non-negative.\<close>

definition nth_e :: "'a list \<Rightarrow> nat \<Rightarrow> error + 'a" where
  "nth_e xs i = (if i < length xs then Inr (xs ! i) else Inl IndexError)"

text \<open>A list subscript with any integer: a negative one counts from the end.\<close>

definition py_nth :: "'a list \<Rightarrow> int \<Rightarrow> error + 'a" where
  "py_nth xs i =
     (if 0 \<le> i then nth_e xs (nat i)
      else if - int (length xs) \<le> i then Inr (xs ! nat (int (length xs) + i))
      else Inl IndexError)"

text \<open>\<^verbatim>\<open>float(data[j][col_idx])\<close>: both subscripts can raise IndexError.\<close>

definition cell :: "fl list list \<Rightarrow> nat \<Rightarrow> nat \<Rightarrow> error + fl" where
  "cell data j c =
     (case nth_e data j of Inl e \<Rightarrow> Inl e | Inr row \<Rightarrow> nth_e row c)"

text \<open>A loop that appends one value per index and stops at the first exception.\<close>

fun emap :: "('a \<Rightarrow> error + 'b) \<Rightarrow> 'a list \<Rightarrow> error + 'b list" where
  "emap f [] = Inr []"
| "emap f (x # xs) =
     (case f x of
        Inl e \<Rightarrow> Inl e
      | Inr y \<Rightarrow> (case emap f xs of Inl e \<Rightarrow> Inl e | Inr ys \<Rightarrow> Inr (y # ys)))"

text \<open>A loop that threads a state through the indexes and stops at the first exception.\<close>

fun efold :: "('a \<Rightarrow> 's \<Rightarrow> error + 's) \<Rightarrow> 'a list \<Rightarrow> 's \<Rightarrow> error + 's" where
  "efold f [] s = Inr s"
| "efold f (x # xs) s = (case f x s of Inl e \<Rightarrow> Inl e | Inr s' \<Rightarrow> efold f xs s')"

text \<open>\<^verbatim>\<open>np.mean\<close> and \<^verbatim>\<open>np.std\<close> (population standard deviation) of a
  non-empty list of numbers.\<close>

definition mean :: "real list \<Rightarrow> real" where
  "mean w = sum_list w / real (length w)"

definition std :: "real list \<Rightarrow> real" where
  "std w = sqrt (mean (map (\<lambda>x. (x - mean w)\<^sup>2) w))"

section \<open>Simple moving average\<close>

text \<open>
  The comprehension of \<^verbatim>\<open>moving_avg\<close>:
  \<^verbatim>\<open>[float(data[j][col_idx]) for j in range(...) if j < len(data) and pd.notna(float(data[j][col_idx]))]\<close>.
  An index past the end is skipped before anything is read.
\<close>

fun window_ma :: "fl list list \<Rightarrow> nat \<Rightarrow> nat list \<Rightarrow> error + real list" where
  "window_ma data c [] = Inr []"
| "window_ma data c (j # js) =
     (if j < length data then
        (case cell data j c of
           Inl e \<Rightarrow> Inl e
         | Inr x \<Rightarrow>
             (case window_ma data c js of
                Inl e \<Rightarrow> Inl e
              | Inr w \<Rightarrow> Inr (case x of None \<Rightarrow> w | Some v \<Rightarrow> v # w)))
      else window_ma data c js)"

definition moving_avg_at :: "fl list list \<Rightarrow> nat \<Rightarrow> nat \<Rightarrow> nat \<Rightarrow> error + fl" where
  "moving_avg_at data lookback c i =
     (if int i < int lookback - 1 then Inr NaN
      else
        (case window_ma data c [i + 1 - lookback ..< i + 1] of
           Inl e \<Rightarrow> Inl e
         | Inr w \<Rightarrow> Inr (if w = [] then NaN else Some (mean w))))"

definition moving_avg :: "fl list list \<Rightarrow> nat \<Rightarrow> nat \<Rightarrow> error + fl list" where
  "moving_avg data lookback c =
     (if data = [] then Inr []
      else emap (moving_avg_at data lookback c) [0 ..< length data])"

section \<open>Bollinger Bands\<close>

text \<open>
  \<^verbatim>\<open>window = [float(data[j][col_idx]) for j in range(i - period + 1, i + 1)]\<close>
  reads every index of the range; the NaN entries are dropped afterwards.
\<close>

definition drop_nan :: "fl list \<Rightarrow> real list" where
  "drop_nan xs = List.map_filter (\<lambda>x. x) xs"

definition boll_at :: "fl list list \<Rightarrow> nat \<Rightarrow> nat \<Rightarrow> fl \<Rightarrow> nat \<Rightarrow> error + (fl \<times> fl \<times> fl)" where
  "boll_at data c period std_dev i =
     (if int i < int period - 1 then Inr (NaN, NaN, NaN)
      else
        (case emap (\<lambda>j. cell data j c) [i + 1 - period ..< i + 1] of
           Inl e \<Rightarrow> Inl e
         | Inr raw \<Rightarrow>
             (let window = drop_nan raw in
              if length window = 0 then Inr (NaN, NaN, NaN)
              else
                (let sma = mean window; sd = std window in
                 Inr (fadd (Some sma) (fmul (Some sd) std_dev),
                      Some sma,
                      fsub (Some sma) (fmul (Some sd) std_dev))))))"

definition boll_bands ::
  "fl list list \<Rightarrow> nat \<Rightarrow> nat \<Rightarrow> fl \<Rightarrow> error + (fl list \<times> fl list \<times> fl list)" where
  "boll_bands data c period std_dev =
     (case emap (boll_at data c period std_dev) [0 ..< length data] of
        Inl e \<Rightarrow> Inl e
      | Inr rows \<Rightarrow> Inr (map fst rows, map (fst \<circ> snd) rows, map (snd \<circ> snd) rows))"

section \<open>Exponential moving average\<close>

text \<open>
  The loop of \<^verbatim>\<open>ema\<close> carries \<^verbatim>\<open>prev_ema\<close> and \<^verbatim>\<open>result\<close>.
  \<open>ema_step\<close> is its body at index \<open>i\<close>, \<open>ema_state\<close> the state after the
  indexes below \<open>n\<close>.
\<close>

definition ema_k :: "nat \<Rightarrow> real" where
  "ema_k lookback = 2 / (real lookback + 1)"

definition ema_step ::
  "fl list list \<Rightarrow> nat \<Rightarrow> nat \<Rightarrow> nat \<Rightarrow> fl \<times> fl list \<Rightarrow> error + (fl \<times> fl list)" where
  "ema_step data lookback c i st =
     (case st of (prev_ema, result) \<Rightarrow>
        if int i < int lookback - 1 then Inr (prev_ema, result @ [NaN])
        else if int i = int lookback - 1 then
          (case emap (\<lambda>j. cell data j c) [0 ..< i + 1] of
             Inl e \<Rightarrow> Inl e
           | Inr raw \<Rightarrow>
               (let window = drop_nan raw;
                    p = (if window = [] then NaN else Some (mean window)) in
                Inr (p, result @ [p])))
        else
          (case cell data i c of
             Inl e \<Rightarrow> Inl e
           | Inr current \<Rightarrow>
               if notna current \<and> notna prev_ema then
                 (let p = fadd (fmul current (Some (ema_k lookback)))
                               (fmul prev_ema (Some (1 - ema_k lookback))) in
                  Inr (p, result @ [p]))
               else Inr (prev_ema, result @ [NaN])))"

definition ema_state :: "fl list list \<Rightarrow> nat \<Rightarrow> nat \<Rightarrow> nat \<Rightarrow> error + (fl \<times> fl list)" where
  "ema_state data lookback c n = efold (ema_step data lookback c) [0 ..< n] (NaN, [])"

definition ema :: "fl list list \<Rightarrow> nat \<Rightarrow> nat \<Rightarrow> error + fl list" where
  "ema data lookback c =
     (if data = [] then Inr []
      else
        (case ema_state data lookback c (length data) of
           Inl e \<Rightarrow> Inl e
         | Inr (prev_ema, result) \<Rightarrow> Inr result))"

section \<open>MACD\<close>

text \<open>The two loops of \<^verbatim>\<open>macd\<close> have the same body: a difference where both
  series are defined at \<open>i\<close>. The second series is read only when the first is
  defined there (\<^verbatim>\<open>and\<close> stops at its first false operand).\<close>

definition diff_at :: "fl list \<Rightarrow> fl list \<Rightarrow> nat \<Rightarrow> error + fl" where
  "diff_at xs ys i =
     (case nth_e xs i of
        Inl e \<Rightarrow> Inl e
      | Inr x \<Rightarrow>
          if notna x then
            (case nth_e ys i of
               Inl e \<Rightarrow> Inl e
             | Inr y \<Rightarrow> Inr (if notna y then fsub x y else NaN))
          else Inr NaN)"

definition macd :: "fl list list \<Rightarrow> nat \<Rightarrow> error + (fl list \<times> fl list \<times> fl list)" where
  "macd data c =
     (case ema data 12 c of
        Inl e \<Rightarrow> Inl e
      | Inr ema12 \<Rightarrow>
     (case ema data 26 c of
        Inl e \<Rightarrow> Inl e
      | Inr ema26 \<Rightarrow>
     (case emap (diff_at ema12 ema26) [0 ..< length data] of
        Inl e \<Rightarrow> Inl e
      | Inr macd_line \<Rightarrow>
     (case ema (map (\<lambda>val. [val]) macd_line) 9 0 of
        Inl e \<Rightarrow> Inl e
      | Inr signal_line \<Rightarrow>
     (case emap (diff_at macd_line signal_line) [0 ..< length data] of
        Inl e \<Rightarrow> Inl e
      | Inr histogram \<Rightarrow> Inr (macd_line, signal_line, histogram))))))"

section \<open>Average Directional Index\<close>

text \<open>
  \<^verbatim>\<open>wilders_smooth\<close>. \<^verbatim>\<open>np.mean\<close> of a slice that holds a NaN, or of an empty
  slice, is NaN. The loop is a recursion that carries the value written last.

  With \<open>p = 0\<close> the source writes \<^verbatim>\<open>smoothed[-1] = np.mean(series[:0])\<close>: an
  IndexError on an empty list, else NaN in the last slot; then every index from 0 on gets
  \<^verbatim>\<open>(smoothed[i-1] * (-1) + series[i]) / 0\<close>, where \<^verbatim>\<open>smoothed[-1]\<close> (at
  \<open>i = 0\<close>) and every later \<^verbatim>\<open>smoothed[i-1]\<close> is a numpy NaN, and numpy divides
  NaN by zero to NaN without raising. So the result is NaN everywhere.
\<close>

definition fmean :: "fl list \<Rightarrow> fl" where
  "fmean xs = (if xs = [] \<or> None \<in> set xs then NaN else Some (mean (drop_nan xs)))"

fun wilders_loop :: "nat \<Rightarrow> fl \<Rightarrow> fl list \<Rightarrow> fl list" where
  "wilders_loop p prev [] = []"
| "wilders_loop p prev (x # xs) =
     (let v = fdiv (fadd (fmul prev (Some (real p - 1))) x) (Some (real p)) in
      v # wilders_loop p v xs)"

definition wilders_smooth :: "fl list \<Rightarrow> nat \<Rightarrow> error + fl list" where
  "wilders_smooth series p =
     (if length series < p then Inr (replicate (length series) NaN)
      else if p = 0 then
        (if series = [] then Inl IndexError else Inr (replicate (length series) NaN))
      else
        (let first = fmean (take p series) in
         Inr (replicate (p - 1) NaN @ first # wilders_loop p first (drop p series))))"

text \<open>The body of the first loop of \<^verbatim>\<open>calculate_adx\<close>, for a day and the day
  before it: \<open>(true_range, plus_dm, minus_dm)\<close>.\<close>

definition dm_tr :: "fl \<times> fl \<times> fl \<Rightarrow> fl \<times> fl \<times> fl \<Rightarrow> fl \<times> fl \<times> fl" where
  "dm_tr prev cur =
     (case prev of (high0, low0, close0) \<Rightarrow>
      case cur of (high1, low1, close1) \<Rightarrow>
        (let high_diff = fsub high1 high0;
             low_diff = fsub low0 low1 in
         (py_max (py_max (fsub high1 low1) (fabs (fsub high1 close0))) (fabs (fsub low1 close0)),
          (if fgt high_diff low_diff then py_max high_diff (Some 0) else Some 0),
          (if fgt low_diff high_diff then py_max low_diff (Some 0) else Some 0))))"

fun adjacent :: "'a list \<Rightarrow> ('a \<times> 'a) list" where
  "adjacent (x # y # ys) = (x, y) # adjacent (y # ys)"
| "adjacent _ = []"

text \<open>The body of the second loop: \<open>(plus_di, minus_di, dx)\<close> at one index, first
  the branch under \<^verbatim>\<open>pd.notna(smooth_tr[i]) and smooth_tr[i] != 0\<close>, then the whole.\<close>

definition di_dx :: "fl \<Rightarrow> fl \<Rightarrow> fl \<Rightarrow> fl \<times> fl \<times> fl" where
  "di_dx tr pdm mdm =
     (let pdi = fmul (fdiv pdm tr) (Some 100);
          mdi = fmul (fdiv mdm tr) (Some 100);
          sum_di = fadd pdi mdi in
      (pdi, mdi,
       if sum_di \<noteq> Some 0 then fmul (fdiv (fabs (fsub pdi mdi)) sum_di) (Some 100)
       else Some 0))"

definition di_dx_at :: "fl list \<Rightarrow> fl list \<Rightarrow> fl list \<Rightarrow> nat \<Rightarrow> error + (fl \<times> fl \<times> fl)" where
  "di_dx_at smooth_tr smooth_pdm smooth_mdm i =
     (case nth_e smooth_tr i of
        Inl e \<Rightarrow> Inl e
      | Inr tr \<Rightarrow>
          if notna tr \<and> tr \<noteq> Some 0 then
            (case nth_e smooth_pdm i of
               Inl e \<Rightarrow> Inl e
             | Inr pdm \<Rightarrow>
                 (case nth_e smooth_mdm i of
                    Inl e \<Rightarrow> Inl e
                  | Inr mdm \<Rightarrow> Inr (di_dx tr pdm mdm)))
          else Inr (NaN, NaN, NaN))"

record adx_result =
  adx :: fl
  plus_di :: fl
  minus_di :: fl

text \<open>The last statement: the three values of the returned dictionary.\<close>

definition adx_summary :: "fl list \<Rightarrow> fl list \<Rightarrow> fl list \<Rightarrow> nat \<Rightarrow> error + adx_result" where
  "adx_summary adx_smooth pdi mdi period =
     (let last_idx = int (length adx_smooth) - 1;
          k = last_idx + int period - 1 in
      case py_nth adx_smooth last_idx of
        Inl e \<Rightarrow> Inl e
      | Inr a \<Rightarrow>
      (case (if int (length pdi) > k then py_nth pdi k else Inr NaN) of
        Inl e \<Rightarrow> Inl e
      | Inr p \<Rightarrow>
      (case (if int (length mdi) > k then py_nth mdi k else Inr NaN) of
        Inl e \<Rightarrow> Inl e
      | Inr m \<Rightarrow>
          Inr \<lparr>adx = (if notna a then round2 a else NaN),
               plus_di = round2 p, minus_di = round2 m\<rparr>)))"

text \<open>The series that \<^verbatim>\<open>calculate_adx\<close> builds in its two loops:
  \<open>(plus_di, minus_di, dx)\<close>.\<close>

definition di_dx_series :: "fl list list \<Rightarrow> nat \<Rightarrow> error + (fl list \<times> fl list \<times> fl list)" where
  "di_dx_series data period =
     (case emap (\<lambda>row. nth_e row 2) data of
        Inl e \<Rightarrow> Inl e
      | Inr highs \<Rightarrow>
     (case emap (\<lambda>row. nth_e row 3) data of
        Inl e \<Rightarrow> Inl e
      | Inr lows \<Rightarrow>
     (case emap (\<lambda>row. nth_e row 4) data of
        Inl e \<Rightarrow> Inl e
      | Inr closes \<Rightarrow>
        (let steps = map (\<lambda>(a, b). dm_tr a b) (adjacent (zip highs (zip lows closes)));
             true_ranges = map fst steps;
             plus_dm = map (fst \<circ> snd) steps;
             minus_dm = map (snd \<circ> snd) steps in
         case wilders_smooth true_ranges period of
           Inl e \<Rightarrow> Inl e
         | Inr smooth_tr \<Rightarrow>
         (case wilders_smooth plus_dm period of
           Inl e \<Rightarrow> Inl e
         | Inr smooth_pdm \<Rightarrow>
         (case wilders_smooth minus_dm period of
           Inl e \<Rightarrow> Inl e
         | Inr smooth_mdm \<Rightarrow>
         (case emap (di_dx_at smooth_tr smooth_pdm smooth_mdm) [0 ..< length smooth_tr] of
           Inl e \<Rightarrow> Inl e
         | Inr rows \<Rightarrow>
             Inr (map fst rows, map (fst \<circ> snd) rows, map (snd \<circ> snd) rows))))))))"

definition calculate_adx :: "fl list list \<Rightarrow> nat \<Rightarrow> error + adx_result" where
  "calculate_adx data period =
     (if length data < period + 1 then Inr \<lparr>adx = NaN, plus_di = NaN, minus_di = NaN\<rparr>
      else
        (case di_dx_series data period of
           Inl e \<Rightarrow> Inl e
         | Inr (pdi, mdi, dx) \<Rightarrow>
             (case wilders_smooth dx period of
                Inl e \<Rightarrow> Inl e
              | Inr adx_smooth \<Rightarrow> adx_summary adx_smooth pdi mdi period)))"

section \<open>The daily strategy\<close>

text \<open>
  Both strategies start from quotes they download, one \<open>bar\<close> per trading day or
  week. The download itself is outside the model: the quotes are a parameter.
\<close>

record bar =
  Open :: fl
  High :: fl
  Low :: fl
  Close :: fl
  Volume :: fl



text \<open>
  \<^verbatim>\<open>run_strategy\<close> from the value \<^verbatim>\<open>hist\<close> that \<^verbatim>\<open>fetch_historical\<close>
  hands over, so that a run on the quotes \<open>q\<close> is
  \<open>run_strategy (fetch_historical q)\<close>. The function returns a list of one row: the
  snapshot, or a single message \<^verbatim>\<open>"ERROR: ..."\<close> when anything raised. In the
  snapshot an undefined value is Python's \<^verbatim>\<open>None\<close>, here \<open>None\<close>.
\<close>

datatype outcome = ErrorRow string | Snapshot "fl list"

text \<open>\<^verbatim>\<open>((a - b) / b) * 100\<close>\<close>

definition pct_change :: "fl \<Rightarrow> fl \<Rightarrow> fl" where
  "pct_change a b = fmul (fdiv (fsub a b) b) (Some 100)"

definition daily_changes :: "fl \<Rightarrow> fl \<Rightarrow> fl \<Rightarrow> fl \<Rightarrow> fl list" where
  "daily_changes price ten_day_price d50 d200 =
     [if ten_day_price \<noteq> Some 0 then pct_change price ten_day_price else Some 0,
      if notna d50 \<and> d50 \<noteq> Some 0 then pct_change price d50 else Some 0,
      if notna d200 \<and> d200 \<noteq> Some 0 then pct_change price d200 else Some 0,
      if notna d200 \<and> notna d50 \<and> d200 \<noteq> Some 0 then pct_change d50 d200 else Some 0]"

definition run_body :: "fl list list \<Rightarrow> error + fl list" where
  "run_body hist =
     (if hist = [] then Inl NoData else
     (case moving_avg hist (min 50 (length hist)) 4 of Inl e \<Rightarrow> Inl e | Inr dma50 \<Rightarrow>
     (case moving_avg hist (min 200 (length hist)) 4 of Inl e \<Rightarrow> Inl e | Inr dma200 \<Rightarrow>
     (case moving_avg hist 20 4 of Inl e \<Rightarrow> Inl e | Inr dma20 \<Rightarrow>
     (case macd hist 4 of Inl e \<Rightarrow> Inl e | Inr (macd_line, macd_signal, macd_hist) \<Rightarrow>
     (case boll_bands hist 4 20 (Some 2) of Inl e \<Rightarrow> Inl e | Inr (bb_upper, bb_middle, bb_lower) \<Rightarrow>
     (case calculate_adx hist 14 of Inl e \<Rightarrow> Inl e | Inr adx_results \<Rightarrow>
       (let i = length hist - 1;
            i_10 = (if 0 \<le> int i - 10 then i - 10 else 0) in
     (case cell hist i 4 of Inl e \<Rightarrow> Inl e | Inr price \<Rightarrow>
     (case cell hist i_10 4 of Inl e \<Rightarrow> Inl e | Inr ten_day_price \<Rightarrow>
     (case nth_e dma50 i of Inl e \<Rightarrow> Inl e | Inr d50 \<Rightarrow>
     (case nth_e dma200 i of Inl e \<Rightarrow> Inl e | Inr d200 \<Rightarrow>
     (case emap (\<lambda>xs. nth_e xs i)
             [macd_line, macd_signal, macd_hist, bb_upper, bb_middle, bb_lower] of
        Inl e \<Rightarrow> Inl e
      | Inr last_values \<Rightarrow>
          Inr (map round2
                ([price, ten_day_price, d50, d200]
                 @ daily_changes price ten_day_price d50 d200
                 @ last_values
                 @ [adx adx_results, plus_di adx_results, minus_di adx_results])))))))))))))))"

definition run_strategy :: "fl list list \<Rightarrow> outcome" where
  "run_strategy hist =
     (case run_body hist of
        Inl e \<Rightarrow> ErrorRow (''ERROR: '' @ str_of_error e)
      | Inr output_row \<Rightarrow> Snapshot output_row)"

section \<open>The weekly strategy\<close>

text \<open>
  \<^verbatim>\<open>run_strategy_w\<close> from the table that \<^verbatim>\<open>ticker.history\<close> hands over, one
  \<open>bar\<close> per row. The function keeps the rows whose five values are all positive
  (a comparison with NaN is false), turns the volume into an integer, and computes the
  same indicators. Its snapshot is not rounded and holds NaN for an undefined value. The
  ten-day change divides two Python floats with no test, which raises on a zero divisor.
\<close>

definition valid_day :: "bar \<Rightarrow> bool" where
  "valid_day row =
     (fgt (Open row) (Some 0) \<and> fgt (High row) (Some 0) \<and> fgt (Low row) (Some 0) \<and>
      fgt (Close row) (Some 0) \<and> fgt (Volume row) (Some 0))"

text \<open>Column 0 of a row holds the date string; nothing reads it, and the model puts
  NaN there.\<close>

definition weekly_rows :: "bar list \<Rightarrow> fl list list" where
  "weekly_rows hist =
     map (\<lambda>row. [NaN, Open row, High row, Low row, Close row,
                  map_option (\<lambda>v. of_int \<lfloor>v\<rfloor>) (Volume row)])
         (filter valid_day hist)"

definition weekly_changes :: "fl \<Rightarrow> fl \<Rightarrow> fl \<Rightarrow> fl \<Rightarrow> error + fl list" where
  "weekly_changes price ten_day_price d50 d200 =
     (if ten_day_price = Some 0 then Inl ZeroDivisionError
      else Inr
        [pct_change price ten_day_price,
         if notna d50 then pct_change price d50 else NaN,
         if notna d200 then pct_change price d200 else NaN,
         if notna d50 \<and> notna d200 then pct_change d50 d200 else NaN])"

definition weekly_body :: "fl list list \<Rightarrow> error + fl list" where
  "weekly_body data =
     (case moving_avg data (min 50 (length data)) 4 of Inl e \<Rightarrow> Inl e | Inr dma50 \<Rightarrow>
     (case moving_avg data (min 200 (length data)) 4 of Inl e \<Rightarrow> Inl e | Inr dma200 \<Rightarrow>
     (case moving_avg data 20 4 of Inl e \<Rightarrow> Inl e | Inr dma20 \<Rightarrow>
     (case macd data 4 of Inl e \<Rightarrow> Inl e | Inr (macd_line, macd_signal, macd_hist) \<Rightarrow>
     (case boll_bands data 4 20 (Some 2) of Inl e \<Rightarrow> Inl e | Inr (bb_upper, bb_middle, bb_lower) \<Rightarrow>
     (case calculate_adx data 14 of Inl e \<Rightarrow> Inl e | Inr adx_results \<Rightarrow>
       (let i = length data - 1;
            i_10 = nat (max (int i - 10) 0) in
     (case cell data i 4 of Inl e \<Rightarrow> Inl e | Inr price \<Rightarrow>
     (case cell data i_10 4 of Inl e \<Rightarrow> Inl e | Inr ten_day_price \<Rightarrow>
     (case nth_e dma50 i of Inl e \<Rightarrow> Inl e | Inr d50 \<Rightarrow>
     (case nth_e dma200 i of Inl e \<Rightarrow> Inl e | Inr d200 \<Rightarrow>
     (case weekly_changes price ten_day_price d50 d200 of Inl e \<Rightarrow> Inl e | Inr changes \<Rightarrow>
     (case emap (\<lambda>xs. nth_e xs i)
             [macd_line, macd_signal, macd_hist, bb_upper, bb_middle, bb_lower] of
        Inl e \<Rightarrow> Inl e
      | Inr last_values \<Rightarrow>
          Inr ([price, ten_day_price, d50, d200]
               @ changes
               @ last_values
               @ [adx adx_results, plus_di adx_results, minus_di adx_results]))))))))))))))"

definition run_strategy_w :: "bar list \<Rightarrow> outcome" where
  "run_strategy_w hist =
     (if hist = [] then ErrorRow ''ERROR: No data''
      else
        (let data = weekly_rows hist in
         if data = [] then ErrorRow ''ERROR: No valid trading days''
         else
           (case weekly_body data of
              Inl e \<Rightarrow> ErrorRow (''ERROR: '' @ str_of_error e)
            | Inr output_row \<Rightarrow> Snapshot output_row)))"

section \<open>Loops and windows\<close>

lemma emap_length: "emap f xs = Inr ys \<Longrightarrow> length ys = length xs"
  by (induction xs arbitrary: ys) (auto split: sum.splits)

lemma emap_nth: "emap f xs = Inr ys \<Longrightarrow> i < length xs \<Longrightarrow> f (xs ! i) = Inr (ys ! i)"
proof (induction xs arbitrary: ys i)
  case Nil
  then show ?case by simp
next
  case (Cons x xs)
  then show ?case by (cases i) (auto split: sum.splits)
qed

lemma emap_cong: "(\<And>x. x \<in> set xs \<Longrightarrow> f x = g x) \<Longrightarrow> emap f xs = emap g xs"
  by (induction xs) (auto split: sum.splits)

lemma emap_map_sum:
  "emap (\<lambda>x. map_sum id h (f x)) xs = map_sum id (map h) (emap f xs)"
  by (induction xs) (auto split: sum.splits)

lemma emap_Inr: "emap (\<lambda>x. Inr (g x)) xs = Inr (map g xs)"
  by (induction xs) auto

lemma emap_total: "(\<And>x. x \<in> set xs \<Longrightarrow> \<exists>y. f x = Inr y) \<Longrightarrow> \<exists>ys. emap f xs = Inr ys"
  by (induction xs) (fastforce split: sum.splits)+

lemma drop_nan_Cons:
  "drop_nan (x # xs) = (case x of None \<Rightarrow> drop_nan xs | Some v \<Rightarrow> v # drop_nan xs)"
  by (simp add: drop_nan_def map_filter_simps split: option.splits)

lemma drop_nan_Nil: "drop_nan [] = []"
  by (simp add: drop_nan_def map_filter_simps)

lemma window_ma_emap:
  "\<forall>j \<in> set js. j < length data \<Longrightarrow>
   window_ma data c js = map_sum id drop_nan (emap (\<lambda>j. cell data j c) js)"
  by (induction js) (auto simp: drop_nan_Cons drop_nan_Nil split: sum.splits option.splits)

lemma boll_at_middle:
  assumes "i < length data"
  shows "map_sum id (fst \<circ> snd) (boll_at data c period sd i) = moving_avg_at data period c i"
proof -
  have "\<forall>j \<in> set [i + 1 - period ..< i + 1]. j < length data"
    using assms by auto
  then have "window_ma data c [i + 1 - period ..< i + 1] =
      map_sum id drop_nan (emap (\<lambda>j. cell data j c) [i + 1 - period ..< i + 1])"
    by (rule window_ma_emap)
  then show ?thesis
    by (auto simp: boll_at_def moving_avg_at_def Let_def split: sum.splits)
qed

lemma boll_middle_eq:
  "map_sum id (fst \<circ> snd) (boll_bands data c period sd) = moving_avg data period c"
proof -
  have "emap (moving_avg_at data period c) [0 ..< length data]
      = emap (\<lambda>i. map_sum id (fst \<circ> snd) (boll_at data c period sd i)) [0 ..< length data]"
    by (rule emap_cong) (simp add: boll_at_middle)
  also have "\<dots> = map_sum id (map (fst \<circ> snd)) (emap (boll_at data c period sd) [0 ..< length data])"
    by (rule emap_map_sum)
  finally show ?thesis
    by (cases "data = []") (auto simp: boll_bands_def moving_avg_def split: sum.splits)
qed

text \<open>The cells of a window that was read without an exception.\<close>

lemma emap_cell_values:
  "emap (\<lambda>j. cell data j c) js = Inr raw \<Longrightarrow> raw = map (\<lambda>j. data ! j ! c) js"
proof (induction js arbitrary: raw)
  case Nil
  then show ?case by simp
next
  case (Cons j js)
  then show ?case
    by (auto simp: cell_def nth_e_def split: sum.splits if_splits)
qed

lemma moving_avg_at_value:
  assumes "moving_avg_at data lookback c i = Inr v" "i < length data"
  shows "v = (if int i < int lookback - 1 then NaN
              else (let w = drop_nan (map (\<lambda>j. data ! j ! c) [i + 1 - lookback ..< i + 1])
                    in if w = [] then NaN else Some (mean w)))"
proof (cases "int i < int lookback - 1")
  case True
  with assms(1) show ?thesis by (simp add: moving_avg_at_def)
next
  case False
  define js where "js = [i + 1 - lookback ..< i + 1]"
  have "\<forall>j \<in> set js. j < length data"
    using assms(2) by (auto simp: js_def)
  then have w: "window_ma data c js = map_sum id drop_nan (emap (\<lambda>j. cell data j c) js)"
    by (rule window_ma_emap)
  from assms(1) False have m: "(case window_ma data c js of
           Inl e \<Rightarrow> Inl e
         | Inr w \<Rightarrow> Inr (if w = [] then NaN else Some (mean w))) = Inr v"
    unfolding moving_avg_at_def js_def by simp
  show ?thesis
  proof (cases "emap (\<lambda>j. cell data j c) js")
    case (Inl e)
    with w m show ?thesis by simp
  next
    case (Inr raw)
    from emap_cell_values[OF Inr] have "raw = map (\<lambda>j. data ! j ! c) js" .
    with Inr w m False show ?thesis
      unfolding js_def[symmetric] Let_def by auto
  qed
qed

lemma moving_avg_length: "moving_avg data lookback c = Inr ma \<Longrightarrow> length ma = length data"
  by (auto simp: moving_avg_def dest: emap_length split: if_splits)

lemma moving_avg_nth:
  assumes "moving_avg data lookback c = Inr ma" "i < length data"
  shows "moving_avg_at data lookback c i = Inr (ma ! i)"
proof -
  from assms have "emap (moving_avg_at data lookback c) [0 ..< length data] = Inr ma"
    by (auto simp: moving_avg_def split: if_splits)
  from emap_nth[OF this, of i] assms(2) show ?thesis by simp
qed


section \<open>Moving average and Bollinger middle band\<close>

text \<open>
  Claim C10. For every series, column and period, the middle band of
  \<^verbatim>\<open>boll_bands\<close> is the list that \<^verbatim>\<open>moving_avg\<close> returns for the same
  period and column, and both raise the same exception where one of them raises. At every
  index the value is NaN below \<open>period - 1\<close>, else the mean of the cells of
  \<open>[i - period + 1, i]\<close> that are not NaN, and NaN when there is none.
\<close>

theorem boll_middle_is_moving_avg:
  "(case boll_bands data c period std_dev of
      Inl e \<Rightarrow> Inl e
    | Inr (upper, middle, lower) \<Rightarrow> Inr middle) = moving_avg data period c
   \<and> (\<forall>ma i. moving_avg data period c = Inr ma \<longrightarrow> i < length data \<longrightarrow>
         length ma = length data \<and>
         ma ! i =
           (if int i < int period - 1 then NaN
            else (let window = drop_nan (map (\<lambda>j. data ! j ! c) [i + 1 - period ..< i + 1])
                  in if window = [] then NaN else Some (mean window))))"
proof (intro conjI allI impI)
  show "(case boll_bands data c period std_dev of
      Inl e \<Rightarrow> Inl e
    | Inr (upper, middle, lower) \<Rightarrow> Inr middle) = moving_avg data period c"
  proof (cases "boll_bands data c period std_dev")
    case (Inl e)
    with boll_middle_eq[of data c period std_dev] show ?thesis by simp
  next
    case (Inr bands)
    with boll_middle_eq[of data c period std_dev] show ?thesis
      by (cases bands) simp
  qed
next
  fix ma i
  assume "moving_avg data period c = Inr ma" "i < length data"
  then show "length ma = length data"
    by (simp add: moving_avg_length)
next
  fix ma i
  assume a: "moving_avg data period c = Inr ma" "i < length data"
  show "ma ! i =
           (if int i < int period - 1 then NaN
            else (let window = drop_nan (map (\<lambda>j. data ! j ! c) [i + 1 - period ..< i + 1])
                  in if window = [] then NaN else Some (mean window)))"
    by (rule moving_avg_at_value[OF moving_avg_nth[OF a] a(2)])
qed

theorem boll_middle_is_moving_avg_witness:
  "moving_avg [[Some 1, Some 2], [Some 3, Some 4], [NaN, Some 9]] 2 1
     = Inr [NaN, Some 3, Some (13 / 2)]
   \<and> (case boll_bands [[Some 1, Some 2], [Some 3, Some 4], [NaN, Some 9]] 1 2 (Some 2) of
        Inl e \<Rightarrow> Inl e
      | Inr (upper, middle, lower) \<Rightarrow> Inr middle) = Inr [NaN, Some 3, Some (13 / 2)]"
proof -
  have m: "moving_avg [[Some 1, Some 2], [Some 3, Some 4], [NaN, Some 9]] 2 1
     = Inr [NaN, Some 3, Some (13 / 2)]"
    by code_simp
  have "(case boll_bands [[Some 1, Some 2], [Some 3, Some 4], [NaN, Some 9]] 1 2 (Some 2) of
        Inl e \<Rightarrow> Inl e
      | Inr (upper, middle, lower) \<Rightarrow> Inr middle)
     = moving_avg [[Some 1, Some 2], [Some 3, Some 4], [NaN, Some 9]] 2 1"
    using boll_middle_is_moving_avg
      [of "[[Some 1, Some 2], [Some 3, Some 4], [NaN, Some 9]]" 1 2 "Some 2"]
    by (rule conjunct1)
  with m show ?thesis by (simp only: simp_thms)
qed

section \<open>ADX on a short series\<close>

text \<open>
  Claim C6. With fewer than \<open>period + 1\<close> rows \<^verbatim>\<open>calculate_adx\<close> returns NaN
  for \<open>adx\<close>, \<open>plus_di\<close> and \<open>minus_di\<close>, and raises nothing, whatever the rows
  hold.
\<close>

theorem calculate_adx_short:
  "length data < period + 1 \<Longrightarrow>
   calculate_adx data period = Inr \<lparr>adx = NaN, plus_di = NaN, minus_di = NaN\<rparr>"
  by (simp add: calculate_adx_def)

theorem calculate_adx_short_witness:
  "length ([[Some 1], [], [Some 2, Some 3, Some 4, Some 5, Some 6, Some 7]] :: fl list list) < 14 + 1
   \<and> calculate_adx [[Some 1], [], [Some 2, Some 3, Some 4, Some 5, Some 6, Some 7]] 14
       = Inr \<lparr>adx = NaN, plus_di = NaN, minus_di = NaN\<rparr>"
proof -
  have short: "length ([[Some 1], [], [Some 2, Some 3, Some 4, Some 5, Some 6, Some 7]] :: fl list list) < 14 + 1"
    by simp
  from short calculate_adx_short[OF short] show ?thesis by (simp only: simp_thms)
qed

section \<open>The EMA recurrence\<close>

lemma efold_snoc:
  "efold f (xs @ [x]) s = (case efold f xs s of Inl e \<Rightarrow> Inl e | Inr s' \<Rightarrow> f x s')"
  by (induction xs arbitrary: s) (auto split: sum.splits)

lemma ema_state_0: "ema_state data lookback c 0 = Inr (NaN, [])"
  by (simp add: ema_state_def)

lemma ema_state_Suc:
  "ema_state data lookback c (Suc n) =
     (case ema_state data lookback c n of
        Inl e \<Rightarrow> Inl e
      | Inr st \<Rightarrow> ema_step data lookback c n st)"
  by (simp add: ema_state_def efold_snoc)

lemma ema_step_result:
  assumes "ema_step data lookback c i (p, res) = Inr (p', res')"
  shows "\<exists>v. res' = res @ [v]"
  using assms
  by (auto simp: ema_step_def Let_def split: if_splits sum.splits)

lemma ema_state_prefix:
  assumes "ema_state data lookback c n = Inr (p, res)" "m \<le> n"
  shows "length res = n \<and> (\<exists>q. ema_state data lookback c m = Inr (q, take m res))"
  using assms
proof (induction n arbitrary: p res m)
  case 0
  then show ?case by (simp add: ema_state_0)
next
  case (Suc n)
  from Suc.prems(1) obtain q r where
    st: "ema_state data lookback c n = Inr (q, r)"
    and step: "ema_step data lookback c n (q, r) = Inr (p, res)"
    by (auto simp: ema_state_Suc split: sum.splits)
  from ema_step_result[OF step] obtain v where res: "res = r @ [v]" by blast
  show ?case
  proof (cases "m = Suc n")
    case True
    with Suc.IH[OF st, of n] Suc.prems(1) res show ?thesis by simp
  next
    case False
    with Suc.prems(2) have mn: "m \<le> n" by simp
    from Suc.IH[OF st mn] res mn show ?thesis by auto
  qed
qed

lemma ema_length: "ema data lookback c = Inr out \<Longrightarrow> length out = length data"
  using ema_state_prefix[of data lookback c "length data" _ out "length data"]
  by (auto simp: ema_def split: if_splits sum.splits)

lemma ema_final_state:
  assumes "ema data lookback c = Inr out" "data \<noteq> []"
  shows "\<exists>p. ema_state data lookback c (length data) = Inr (p, out)"
  using assms by (auto simp: ema_def split: if_splits sum.splits)

text \<open>
  Claim C4. Past the seed index (\<open>i > lookback - 1\<close>), with \<open>k = 2 / (lookback + 1)\<close>:
  \<open>p\<close> is \<^verbatim>\<open>prev_ema\<close> when the loop reaches \<open>i\<close> and \<open>p'\<close> when it leaves
  \<open>i\<close>. If the cell at \<open>i\<close> and \<open>p\<close> are both defined, the output at \<open>i\<close> is
  \<open>current * k + p * (1 - k)\<close> and it is the new state; otherwise the output is NaN and
  the state is unchanged, so the next defined cell goes on from the last valid state.
\<close>

theorem ema_recurrence:
  assumes "ema data lookback c = Inr out" "i < length data" "int lookback - 1 < int i"
  shows "\<exists>p p' current.
           ema_state data lookback c i = Inr (p, take i out) \<and>
           cell data i c = Inr current \<and>
           ema_state data lookback c (Suc i) = Inr (p', take (Suc i) out) \<and>
           (if notna current \<and> notna p
            then out ! i = Some (the current * (2 / (real lookback + 1))
                                 + the p * (1 - 2 / (real lookback + 1)))
                 \<and> p' = out ! i
            else out ! i = NaN \<and> p' = p)"
proof -
  from assms(2) have ne: "data \<noteq> []" by auto
  from ema_final_state[OF assms(1) ne] obtain pf where
    fin: "ema_state data lookback c (length data) = Inr (pf, out)" by blast
  from ema_state_prefix[OF fin, of i] assms(2) obtain p where
    len: "length out = length data"
    and before: "ema_state data lookback c i = Inr (p, take i out)" by auto
  from ema_state_prefix[OF fin, of "Suc i"] assms(2) obtain p' where
    after: "ema_state data lookback c (Suc i) = Inr (p', take (Suc i) out)" by auto
  from before after have step:
    "ema_step data lookback c i (p, take i out) = Inr (p', take (Suc i) out)"
    by (simp add: ema_state_Suc)
  from len assms(2) have tk: "take (Suc i) out = take i out @ [out ! i]"
    by (simp add: take_Suc_conv_app_nth)
  from step assms(3) obtain current where cur: "cell data i c = Inr current"
    by (auto simp: ema_step_def split: if_splits sum.splits)
  from step assms(3) cur tk have
    "if notna current \<and> notna p
     then out ! i = Some (the current * (2 / (real lookback + 1))
                          + the p * (1 - 2 / (real lookback + 1)))
          \<and> p' = out ! i
     else out ! i = NaN \<and> p' = p"
    by (auto simp: ema_step_def ema_k_def notna_def fadd_def fmul_def Let_def split: if_splits)
  with before cur after show ?thesis by blast
qed


theorem ema_recurrence_witness:
  "ema [[Some 1], [Some 3], [NaN], [Some 5]] 2 0 = Inr [NaN, Some 2, NaN, Some 4]
   \<and> (\<exists>p p' current.
         ema_state [[Some 1], [Some 3], [NaN], [Some 5]] 2 0 2
           = Inr (p, take 2 [NaN, Some 2, NaN, Some 4]) \<and>
         cell [[Some 1], [Some 3], [NaN], [Some 5]] 2 0 = Inr current \<and>
         ema_state [[Some 1], [Some 3], [NaN], [Some 5]] 2 0 (Suc 2)
           = Inr (p', take (Suc 2) [NaN, Some 2, NaN, Some 4]) \<and>
         (if notna current \<and> notna p
          then [NaN, Some 2, NaN, Some 4] ! 2 =
                 Some (the current * (2 / (real 2 + 1)) + the p * (1 - 2 / (real 2 + 1)))
               \<and> p' = [NaN, Some 2, NaN, Some 4] ! 2
          else [NaN, Some 2, NaN, Some 4] ! 2 = NaN \<and> p' = p))
   \<and> (\<exists>p p' current.
         ema_state [[Some 1], [Some 3], [NaN], [Some 5]] 2 0 3
           = Inr (p, take 3 [NaN, Some 2, NaN, Some 4]) \<and>
         cell [[Some 1], [Some 3], [NaN], [Some 5]] 3 0 = Inr current \<and>
         ema_state [[Some 1], [Some 3], [NaN], [Some 5]] 2 0 (Suc 3)
           = Inr (p', take (Suc 3) [NaN, Some 2, NaN, Some 4]) \<and>
         (if notna current \<and> notna p
          then [NaN, Some 2, NaN, Some 4] ! 3 =
                 Some (the current * (2 / (real 2 + 1)) + the p * (1 - 2 / (real 2 + 1)))
               \<and> p' = [NaN, Some 2, NaN, Some 4] ! 3
          else [NaN, Some 2, NaN, Some 4] ! 3 = NaN \<and> p' = p))"
proof -
  have e: "ema [[Some 1], [Some 3], [NaN], [Some 5]] 2 0 = Inr [NaN, Some 2, NaN, Some 4]"
    by code_simp
  have i2: "2 < length ([[Some 1], [Some 3], [NaN], [Some 5]] :: fl list list)"
    and i3: "3 < length ([[Some 1], [Some 3], [NaN], [Some 5]] :: fl list list)"
    by simp_all
  have p2: "int 2 - 1 < int 2" and p3: "int 2 - 1 < int 3" by simp_all
  from e ema_recurrence[OF e i2 p2] ema_recurrence[OF e i3 p3] show ?thesis
    by (intro conjI)
qed

section \<open>The MACD histogram\<close>

lemma nth_e_Inr: "i < length xs \<Longrightarrow> nth_e xs i = Inr (xs ! i)"
  by (simp add: nth_e_def)

lemma diff_at_value:
  assumes "i < length xs" "i < length ys"
  shows "diff_at xs ys i =
           Inr (if notna (xs ! i) \<and> notna (ys ! i) then Some (the (xs ! i) - the (ys ! i)) else NaN)"
  using assms by (auto simp: diff_at_def nth_e_Inr notna_def fsub_def)

lemma emap_diff_at:
  assumes "emap (diff_at xs ys) [0 ..< n] = Inr zs" "i < n" "i < length xs" "i < length ys"
  shows "zs ! i = (if notna (xs ! i) \<and> notna (ys ! i) then Some (the (xs ! i) - the (ys ! i)) else NaN)"
proof -
  from emap_nth[OF assms(1), of i] assms(2) have "diff_at xs ys i = Inr (zs ! i)" by simp
  with diff_at_value[OF assms(3,4)] show ?thesis by simp
qed

text \<open>
  How \<^verbatim>\<open>macd\<close> builds its lists. Where it returns, the three lists have the length
  of the series, and at every index: the line is \<open>ema12 - ema26\<close> where both are
  defined and NaN elsewhere; the signal is the 9-period \<^verbatim>\<open>ema\<close> of the line taken
  as a series of one column; the histogram is \<open>line - signal\<close> where both are defined
  and NaN elsewhere. The last section shows that the signal is never defined.
\<close>

lemma macd_lists:
  assumes "macd data c = Inr (macd_line, signal_line, histogram)" "i < length data"
  shows "length macd_line = length data \<and> length signal_line = length data \<and>
         length histogram = length data \<and>
         (\<exists>ema12 ema26.
            ema data 12 c = Inr ema12 \<and> ema data 26 c = Inr ema26 \<and>
            macd_line ! i =
              (if notna (ema12 ! i) \<and> notna (ema26 ! i)
               then Some (the (ema12 ! i) - the (ema26 ! i)) else NaN)) \<and>
         ema (map (\<lambda>val. [val]) macd_line) 9 0 = Inr signal_line \<and>
         histogram ! i =
           (if notna (macd_line ! i) \<and> notna (signal_line ! i)
            then Some (the (macd_line ! i) - the (signal_line ! i)) else NaN)"
proof -
  from assms(1) obtain ema12 ema26 where
    e12: "ema data 12 c = Inr ema12" and e26: "ema data 26 c = Inr ema26"
    and line: "emap (diff_at ema12 ema26) [0 ..< length data] = Inr macd_line"
    and sig: "ema (map (\<lambda>val. [val]) macd_line) 9 0 = Inr signal_line"
    and hist: "emap (diff_at macd_line signal_line) [0 ..< length data] = Inr histogram"
    unfolding macd_def by (auto split: sum.splits)
  from emap_length[OF line] have l1: "length macd_line = length data" by simp
  from ema_length[OF sig] l1 have l2: "length signal_line = length data" by simp
  from emap_length[OF hist] have l3: "length histogram = length data" by simp
  from ema_length[OF e12] ema_length[OF e26] assms(2)
  have "i < length ema12" "i < length ema26" by simp_all
  from emap_diff_at[OF line assms(2) this] have v1: "macd_line ! i =
              (if notna (ema12 ! i) \<and> notna (ema26 ! i)
               then Some (the (ema12 ! i) - the (ema26 ! i)) else NaN)" .
  from l1 l2 assms(2) have "i < length macd_line" "i < length signal_line" by simp_all
  from emap_diff_at[OF hist assms(2) this] have v2: "histogram ! i =
           (if notna (macd_line ! i) \<and> notna (signal_line ! i)
            then Some (the (macd_line ! i) - the (signal_line ! i)) else NaN)" .
  from l1 l2 l3 e12 e26 v1 sig v2 show ?thesis by blast
qed

section \<open>Bollinger Bands around the mean\<close>

lemma boll_at_value:
  assumes "boll_at data c period std_dev i = Inr (u, m, l)" "i < length data"
  shows "(u, m, l) =
     (if int i < int period - 1 then (NaN, NaN, NaN)
      else (let window = drop_nan (map (\<lambda>j. data ! j ! c) [i + 1 - period ..< i + 1]) in
            if window = [] then (NaN, NaN, NaN)
            else (fadd (Some (mean window)) (fmul (Some (std window)) std_dev),
                  Some (mean window),
                  fsub (Some (mean window)) (fmul (Some (std window)) std_dev))))"
proof (cases "int i < int period - 1")
  case True
  with assms(1) show ?thesis by (simp add: boll_at_def)
next
  case False
  define js where "js = [i + 1 - period ..< i + 1]"
  from assms(1) False have m: "(case emap (\<lambda>j. cell data j c) js of
           Inl e \<Rightarrow> Inl e
         | Inr raw \<Rightarrow>
             (let window = drop_nan raw in
              if length window = 0 then Inr (NaN, NaN, NaN)
              else
                (let sma = mean window; sd = std window in
                 Inr (fadd (Some sma) (fmul (Some sd) std_dev),
                      Some sma,
                      fsub (Some sma) (fmul (Some sd) std_dev))))) = Inr (u, m, l)"
    unfolding boll_at_def js_def by simp
  show ?thesis
  proof (cases "emap (\<lambda>j. cell data j c) js")
    case (Inl e)
    with m show ?thesis by simp
  next
    case (Inr raw)
    from emap_cell_values[OF Inr] have "raw = map (\<lambda>j. data ! j ! c) js" .
    with Inr m False show ?thesis
      unfolding js_def[symmetric] Let_def by (auto split: if_splits)
  qed
qed

lemma boll_bands_nth:
  assumes "boll_bands data c period std_dev = Inr (upper, middle, lower)" "i < length data"
  shows "boll_at data c period std_dev i = Inr (upper ! i, middle ! i, lower ! i)
         \<and> length upper = length data \<and> length middle = length data \<and> length lower = length data"
proof -
  from assms(1) obtain rows where
    rows: "emap (boll_at data c period std_dev) [0 ..< length data] = Inr rows"
    and u: "upper = map fst rows" and m: "middle = map (fst \<circ> snd) rows"
    and l: "lower = map (snd \<circ> snd) rows"
    unfolding boll_bands_def by (auto split: sum.splits)
  from emap_length[OF rows] have len: "length rows = length data" by simp
  from emap_nth[OF rows, of i] assms(2) have "boll_at data c period std_dev i = Inr (rows ! i)"
    by simp
  with len assms(2) u m l show ?thesis by simp
qed

text \<open>
  Claim C8. At every index where the three bands are defined, the multiplier is a number
  \<open>k\<close>, the window of cells that are not NaN is not empty, the middle band is its mean,
  the upper and lower bands are the mean plus and minus \<open>k\<close> times its population
  standard deviation, and \<open>upper - middle = middle - lower\<close>.
\<close>

theorem boll_bands_symmetric:
  assumes "boll_bands data c period std_dev = Inr (upper, middle, lower)"
    and "i < length data"
    and "notna (upper ! i)" "notna (middle ! i)" "notna (lower ! i)"
  shows "\<exists>k. std_dev = Some k \<and>
           (let window = drop_nan (map (\<lambda>j. data ! j ! c) [i + 1 - period ..< i + 1]) in
            window \<noteq> [] \<and>
            middle ! i = Some (mean window) \<and>
            upper ! i = Some (mean window + std window * k) \<and>
            lower ! i = Some (mean window - std window * k) \<and>
            the (upper ! i) - the (middle ! i) = the (middle ! i) - the (lower ! i))"
proof -
  from boll_bands_nth[OF assms(1,2)]
  have "boll_at data c period std_dev i = Inr (upper ! i, middle ! i, lower ! i)" by simp
  from boll_at_value[OF this assms(2)] assms(3,4,5) show ?thesis
    by (cases std_dev) (auto simp: Let_def notna_def fadd_def fsub_def fmul_def split: if_splits)
qed

theorem boll_bands_symmetric_witness:
  "boll_bands [[Some 1], [Some 3]] 0 2 (Some 2)
     = Inr ([NaN, Some 4], [NaN, Some 2], [NaN, Some 0])
   \<and> (\<exists>k. Some 2 = Some k \<and>
         (let window = drop_nan (map (\<lambda>j. [[Some 1], [Some 3]] ! j ! 0) [1 + 1 - 2 ..< 1 + 1]) in
          window \<noteq> [] \<and>
          [NaN, Some 2] ! 1 = Some (mean window) \<and>
          [NaN, Some 4] ! 1 = Some (mean window + std window * k) \<and>
          [NaN, Some 0] ! 1 = Some (mean window - std window * k) \<and>
          the ([NaN, Some 4] ! 1) - the ([NaN, Some 2] ! 1)
            = the ([NaN, Some 2] ! 1) - the (([NaN, Some 0] :: fl list) ! 1)))"
proof -
  have b: "boll_bands [[Some 1], [Some 3]] 0 2 (Some 2)
     = Inr ([NaN, Some 4], [NaN, Some 2], [NaN, Some 0])"
    by (simp add: boll_bands_def boll_at_def cell_def nth_e_def drop_nan_def map_filter_simps
        mean_def std_def fadd_def fsub_def fmul_def upt_conv_Cons power2_eq_square)
  have i: "1 < length ([[Some 1], [Some 3]] :: fl list list)" by simp
  have d: "notna (([NaN, Some 4] :: fl list) ! 1)" "notna (([NaN, Some 2] :: fl list) ! 1)"
    "notna (([NaN, Some 0] :: fl list) ! 1)"
    by (simp_all add: notna_def)
  from b boll_bands_symmetric[OF b i d] show ?thesis
    by (intro conjI)
qed

section \<open>Wilder's smoothing\<close>

lemma length_adjacent: "length (adjacent xs) = length xs - 1"
  by (induction xs rule: adjacent.induct) auto

lemma length_wilders_loop: "length (wilders_loop p prev xs) = length xs"
  by (induction xs arbitrary: prev) (auto simp: Let_def)

lemma wilders_smooth_length:
  "wilders_smooth series p = Inr out \<Longrightarrow> length out = length series"
  by (auto simp: wilders_smooth_def Let_def length_wilders_loop split: if_splits)

lemma wilders_smooth_total:
  "0 < p \<or> series \<noteq> [] \<Longrightarrow> \<exists>out. wilders_smooth series p = Inr out"
  by (auto simp: wilders_smooth_def Let_def)

lemma wilders_loop_nth:
  "i < length xs \<Longrightarrow>
   wilders_loop p prev xs ! i =
     fdiv (fadd (fmul (if i = 0 then prev else wilders_loop p prev xs ! (i - 1))
                      (Some (real p - 1))) (xs ! i)) (Some (real p))"
proof (induction xs arbitrary: prev i)
  case Nil
  then show ?case by simp
next
  case (Cons x xs)
  show ?case
  proof (cases i)
    case 0
    then show ?thesis by (simp add: Let_def)
  next
    case (Suc j)
    with Cons.prems have j: "j < length xs" by simp
    from Cons.IH[OF j] Suc show ?thesis
      by (cases j) (simp_all add: Let_def)
  qed
qed

lemma smoothed_nth:
  assumes "0 < p" "p \<le> i"
  shows "(replicate (p - 1) NaN @ first # ys) ! i = ys ! (i - p)"
proof -
  from assms have "i - (p - 1) = Suc (i - p)" by arith
  moreover from assms have "\<not> i < p - 1" by arith
  ultimately show ?thesis by (simp add: nth_append)
qed

lemma wilders_smooth_recurrence:
  assumes "0 < p" "p \<le> length series"
  shows "\<exists>out. wilders_smooth series p = Inr out \<and> length out = length series \<and>
           (\<forall>i. i < p - 1 \<longrightarrow> out ! i = NaN) \<and>
           out ! (p - 1) = fmean (take p series) \<and>
           (\<forall>i. p \<le> i \<and> i < length series \<longrightarrow>
              out ! i = fdiv (fadd (fmul (out ! (i - 1)) (Some (real p - 1))) (series ! i))
                             (Some (real p)))"
proof -
  define first where "first = fmean (take p series)"
  define out where "out = replicate (p - 1) NaN @ first # wilders_loop p first (drop p series)"
  from assms have w: "wilders_smooth series p = Inr out"
    by (simp add: wilders_smooth_def out_def first_def Let_def)
  from assms have len: "length out = length series"
    by (simp add: out_def length_wilders_loop)
  have a: "\<forall>i. i < p - 1 \<longrightarrow> out ! i = NaN"
    by (simp add: out_def nth_append)
  have b: "out ! (p - 1) = first"
    by (simp add: out_def nth_append)
  have c: "out ! i = fdiv (fadd (fmul (out ! (i - 1)) (Some (real p - 1))) (series ! i))
                             (Some (real p))" if "p \<le> i \<and> i < length series" for i
  proof -
    from that have pi: "p \<le> i" and il: "i < length series" by simp_all
    from pi il have i: "i - p < length (drop p series)" by simp
    have "out ! i = wilders_loop p first (drop p series) ! (i - p)"
      unfolding out_def by (rule smoothed_nth[OF assms(1) pi])
    also have "\<dots> = fdiv (fadd (fmul (if i - p = 0 then first
                                        else wilders_loop p first (drop p series) ! (i - p - 1))
                      (Some (real p - 1))) (drop p series ! (i - p))) (Some (real p))"
      by (rule wilders_loop_nth[OF i])
    also have "(if i - p = 0 then first else wilders_loop p first (drop p series) ! (i - p - 1))
        = out ! (i - 1)"
    proof (cases "i = p")
      case True
      with b show ?thesis by simp
    next
      case False
      with pi have p1: "p \<le> i - 1" by arith
      have "out ! (i - 1) = wilders_loop p first (drop p series) ! (i - 1 - p)"
        unfolding out_def by (rule smoothed_nth[OF assms(1) p1])
      moreover have "i - 1 - p = i - p - 1" by arith
      ultimately show ?thesis using False pi by simp
    qed
    also from pi il have "drop p series ! (i - p) = series ! i" by simp
    finally show ?thesis .
  qed
  from w len a b c show ?thesis unfolding first_def by blast
qed

lemma drop_nan_replicate: "drop_nan (replicate n (Some v)) = replicate n v"
  by (induction n) (simp_all add: drop_nan_def map_filter_simps)

lemma mean_replicate: "0 < n \<Longrightarrow> mean (replicate n v) = v"
  by (simp add: mean_def sum_list_replicate)

lemma fmean_replicate: "0 < n \<Longrightarrow> fmean (replicate n (Some v)) = Some v"
  by (simp add: fmean_def drop_nan_replicate mean_replicate)

lemma wilders_loop_replicate:
  "0 < p \<Longrightarrow> wilders_loop p (Some v) (replicate n (Some v)) = replicate n (Some v)"
  by (induction n) (simp_all add: Let_def fdiv_def fadd_def fmul_def algebra_simps)

lemma wilders_smooth_replicate:
  assumes "0 < p" "p \<le> m"
  shows "wilders_smooth (replicate m (Some v)) p
           = Inr (replicate (p - 1) NaN @ replicate (m - (p - 1)) (Some v))"
proof -
  from assms have "replicate (m - (p - 1)) (Some v) = Some v # replicate (m - p) (Some v)"
    by (cases "m - (p - 1)") (auto simp: Suc_diff_le)
  with assms show ?thesis
    by (simp add: wilders_smooth_def Let_def fmean_replicate wilders_loop_replicate min_def)
qed

text \<open>
  Claim C5. On a constant series of value \<open>v\<close> and length at least \<open>p\<close> (and not
  empty), \<^verbatim>\<open>wilders_smooth\<close> returns a list of the same length that is NaN at
  every index below \<open>p - 1\<close> and \<open>v\<close> at every index where it is defined; for
  \<open>p \<ge> 1\<close> that is every index from \<open>p - 1\<close> on. The second part states the
  smoothing itself, on any series: NaN below \<open>p - 1\<close>, the mean of the first \<open>p\<close>
  samples at \<open>p - 1\<close>, then \<open>out[i] = (out[i-1] * (p - 1) + s[i]) / p\<close>.
\<close>

theorem wilders_smooth_constant:
  assumes "p \<le> m" "0 < m"
  shows "(\<exists>out. wilders_smooth (replicate m (Some v)) p = Inr out \<and> length out = m \<and>
            (\<forall>i. i < m \<longrightarrow>
               (int i < int p - 1 \<longrightarrow> out ! i = NaN) \<and>
               (notna (out ! i) \<longrightarrow> out ! i = Some v) \<and>
               (0 < p \<and> p - 1 \<le> i \<longrightarrow> out ! i = Some v)))
         \<and> (\<forall>series. 0 < p \<and> p \<le> length series \<longrightarrow>
              (\<exists>out. wilders_smooth series p = Inr out \<and> length out = length series \<and>
                 (\<forall>i. i < p - 1 \<longrightarrow> out ! i = NaN) \<and>
                 out ! (p - 1) = fmean (take p series) \<and>
                 (\<forall>i. p \<le> i \<and> i < length series \<longrightarrow>
                    out ! i = fdiv (fadd (fmul (out ! (i - 1)) (Some (real p - 1))) (series ! i))
                                   (Some (real p)))))"
proof (intro conjI allI impI)
  show "\<exists>out. wilders_smooth (replicate m (Some v)) p = Inr out \<and> length out = m \<and>
            (\<forall>i. i < m \<longrightarrow>
               (int i < int p - 1 \<longrightarrow> out ! i = NaN) \<and>
               (notna (out ! i) \<longrightarrow> out ! i = Some v) \<and>
               (0 < p \<and> p - 1 \<le> i \<longrightarrow> out ! i = Some v))"
  proof (cases "p = 0")
    case True
    with assms have "wilders_smooth (replicate m (Some v)) p = Inr (replicate m NaN)"
      by (simp add: wilders_smooth_def)
    with True show ?thesis by (simp add: notna_def)
  next
    case False
    then have p: "0 < p" by simp
    have "\<forall>i. i < m \<longrightarrow>
        (int i < int p - 1 \<longrightarrow>
           (replicate (p - 1) NaN @ replicate (m - (p - 1)) (Some v)) ! i = NaN) \<and>
        (notna ((replicate (p - 1) NaN @ replicate (m - (p - 1)) (Some v)) ! i) \<longrightarrow>
           (replicate (p - 1) NaN @ replicate (m - (p - 1)) (Some v)) ! i = Some v) \<and>
        (0 < p \<and> p - 1 \<le> i \<longrightarrow>
           (replicate (p - 1) NaN @ replicate (m - (p - 1)) (Some v)) ! i = Some v)"
      using assms p by (auto simp: nth_append notna_def)
    with wilders_smooth_replicate[OF p assms(1), of v] assms p show ?thesis by simp
  qed
next
  fix series :: "fl list"
  assume "0 < p \<and> p \<le> length series"
  then show "\<exists>out. wilders_smooth series p = Inr out \<and> length out = length series \<and>
                 (\<forall>i. i < p - 1 \<longrightarrow> out ! i = NaN) \<and>
                 out ! (p - 1) = fmean (take p series) \<and>
                 (\<forall>i. p \<le> i \<and> i < length series \<longrightarrow>
                    out ! i = fdiv (fadd (fmul (out ! (i - 1)) (Some (real p - 1))) (series ! i))
                                   (Some (real p)))"
    using wilders_smooth_recurrence[of p series] by simp
qed


theorem wilders_smooth_constant_witness:
  "(2::nat) \<le> 4 \<and> (0::nat) < 4 \<and>
   wilders_smooth (replicate 4 (Some 7)) 2 = Inr [NaN, Some 7, Some 7, Some 7] \<and>
   (\<exists>out. wilders_smooth (replicate 4 (Some 7)) 2 = Inr out \<and> length out = 4 \<and>
      (\<forall>i. i < 4 \<longrightarrow>
         (int i < int 2 - 1 \<longrightarrow> out ! i = NaN) \<and>
         (notna (out ! i) \<longrightarrow> out ! i = Some 7) \<and>
         (0 < (2::nat) \<and> 2 - 1 \<le> i \<longrightarrow> out ! i = Some 7)))"
proof -
  have a: "(2::nat) \<le> 4" and b: "(0::nat) < 4" by simp_all
  have e: "wilders_smooth (replicate 4 (Some 7)) 2 = Inr [NaN, Some 7, Some 7, Some 7]"
    by code_simp
  from wilders_smooth_constant[OF a b, of 7] have "\<exists>out. wilders_smooth (replicate 4 (Some 7)) 2 = Inr out \<and> length out = 4 \<and>
      (\<forall>i. i < 4 \<longrightarrow>
         (int i < int 2 - 1 \<longrightarrow> out ! i = NaN) \<and>
         (notna (out ! i) \<longrightarrow> out ! i = Some 7) \<and>
         (0 < (2::nat) \<and> 2 - 1 \<le> i \<longrightarrow> out ! i = Some 7))"
    by (rule conjunct1)
  with a b e show ?thesis by (intro conjI)
qed


section \<open>The ADX summary\<close>

lemma emap_nth_e_total:
  assumes "\<forall>row \<in> set data. k < length row"
  shows "emap (\<lambda>row. nth_e row k) data = Inr (map (\<lambda>row. row ! k) data)"
  using assms by (induction data) (auto simp: nth_e_def)

lemma di_dx_at_value:
  assumes "i < length tr" "i < length pdm" "i < length mdm"
  shows "di_dx_at tr pdm mdm i =
           Inr (if notna (tr ! i) \<and> tr ! i \<noteq> Some 0
                then di_dx (tr ! i) (pdm ! i) (mdm ! i) else (NaN, NaN, NaN))"
  using assms by (simp add: di_dx_at_def nth_e_def)

lemma di_dx_series_lengths:
  assumes "di_dx_series data period = Inr (pdi, mdi, dx)"
  shows "length pdi = length data - 1 \<and> length mdi = length data - 1
         \<and> length dx = length data - 1"
proof -
  from assms obtain highs lows closes smooth_tr smooth_pdm smooth_mdm rows where
    h: "emap (\<lambda>row. nth_e row 2) data = Inr highs"
    and l: "emap (\<lambda>row. nth_e row 3) data = Inr lows"
    and c: "emap (\<lambda>row. nth_e row 4) data = Inr closes"
    and tr: "wilders_smooth (map fst (map (\<lambda>(a, b). dm_tr a b)
               (adjacent (zip highs (zip lows closes))))) period = Inr smooth_tr"
    and rows: "emap (di_dx_at smooth_tr smooth_pdm smooth_mdm) [0 ..< length smooth_tr] = Inr rows"
    and res: "pdi = map fst rows" "mdi = map (fst \<circ> snd) rows" "dx = map (snd \<circ> snd) rows"
    unfolding di_dx_series_def Let_def by (auto split: sum.splits)
  from emap_length[OF h] emap_length[OF l] emap_length[OF c]
  have "length (zip highs (zip lows closes)) = length data" by simp
  with wilders_smooth_length[OF tr] have "length smooth_tr = length data - 1"
    by (simp add: length_adjacent)
  with emap_length[OF rows] res show ?thesis by simp
qed

lemma di_dx_series_total:
  assumes "\<forall>row \<in> set data. 5 \<le> length row" "0 < period \<or> 2 \<le> length data"
  shows "\<exists>y. di_dx_series data period = Inr y"
proof -
  from assms(1) have h: "emap (\<lambda>row. nth_e row 2) data = Inr (map (\<lambda>row. row ! 2) data)"
    by (intro emap_nth_e_total) auto
  from assms(1) have l: "emap (\<lambda>row. nth_e row 3) data = Inr (map (\<lambda>row. row ! 3) data)"
    by (intro emap_nth_e_total) auto
  from assms(1) have c: "emap (\<lambda>row. nth_e row 4) data = Inr (map (\<lambda>row. row ! 4) data)"
    by (intro emap_nth_e_total) auto
  define steps where "steps = map (\<lambda>(a, b). dm_tr a b)
      (adjacent (zip (map (\<lambda>row. row ! 2) data)
                     (zip (map (\<lambda>row. row ! 3) data) (map (\<lambda>row. row ! 4) data))))"
  have len: "length steps = length data - 1"
    by (simp add: steps_def length_adjacent)
  with assms(2) have ok: "0 < period \<or> steps \<noteq> []" by auto
  then obtain smooth_tr where tr: "wilders_smooth (map fst steps) period = Inr smooth_tr"
    using wilders_smooth_total[of period "map fst steps"] by auto
  from ok obtain smooth_pdm where pdm: "wilders_smooth (map (fst \<circ> snd) steps) period = Inr smooth_pdm"
    using wilders_smooth_total[of period "map (fst \<circ> snd) steps"] by auto
  from ok obtain smooth_mdm where mdm: "wilders_smooth (map (snd \<circ> snd) steps) period = Inr smooth_mdm"
    using wilders_smooth_total[of period "map (snd \<circ> snd) steps"] by auto
  from wilders_smooth_length[OF tr] wilders_smooth_length[OF pdm] wilders_smooth_length[OF mdm]
  have "emap (di_dx_at smooth_tr smooth_pdm smooth_mdm) [0 ..< length smooth_tr]
      = emap (\<lambda>i. Inr (if notna (smooth_tr ! i) \<and> smooth_tr ! i \<noteq> Some 0
                then di_dx (smooth_tr ! i) (smooth_pdm ! i) (smooth_mdm ! i) else (NaN, NaN, NaN)))
          [0 ..< length smooth_tr]"
    using wilders_smooth_length[OF tr] wilders_smooth_length[OF pdm] wilders_smooth_length[OF mdm]
    by (intro emap_cong di_dx_at_value) simp_all
  then obtain rows where
    rows: "emap (di_dx_at smooth_tr smooth_pdm smooth_mdm) [0 ..< length smooth_tr] = Inr rows"
    by (simp add: emap_Inr)
  show ?thesis
    unfolding di_dx_series_def h l c sum.case Let_def steps_def[symmetric] tr pdm mdm rows
    by simp
qed

lemma py_nth_last:
  "xs \<noteq> [] \<Longrightarrow> py_nth xs (int (length xs) - 1) = Inr (last xs)"
  by (cases xs rule: rev_cases) (auto simp: py_nth_def nth_e_def nth_append)

lemma py_nth_empty: "py_nth [] (- 1) = Inl IndexError"
  by (simp add: py_nth_def)

lemma py_nth_in_bounds:
  "0 \<le> k \<Longrightarrow> k < int (length xs) \<Longrightarrow> py_nth xs k = Inr (xs ! nat k)"
  by (simp add: py_nth_def nth_e_def)

lemma py_nth_total:
  "- int (length xs) \<le> k \<Longrightarrow> k < int (length xs) \<Longrightarrow> \<exists>v. py_nth xs k = Inr v"
  by (auto simp: py_nth_def nth_e_def)

lemma py_nth_Inr_nonempty: "py_nth xs k = Inr v \<Longrightarrow> xs \<noteq> []"
  by (auto simp: py_nth_def nth_e_def split: if_splits)

lemma round2_NaN: "round2 NaN = NaN"
  by (simp add: round2_def)

lemma adx_summary_value:
  assumes "adx_summary adx_smooth pdi mdi period = Inr r"
  shows "adx_smooth \<noteq> [] \<and> adx r = round2 (last adx_smooth) \<and>
         (\<exists>p m. (if int (length adx_smooth) - 1 + int period - 1 < int (length pdi)
                  then py_nth pdi (int (length adx_smooth) - 1 + int period - 1) else Inr NaN) = Inr p \<and>
                 (if int (length adx_smooth) - 1 + int period - 1 < int (length mdi)
                  then py_nth mdi (int (length adx_smooth) - 1 + int period - 1) else Inr NaN) = Inr m \<and>
                 plus_di r = round2 p \<and> minus_di r = round2 m)"
proof -
  from assms obtain a p m where
    a: "py_nth adx_smooth (int (length adx_smooth) - 1) = Inr a"
    and p: "(if int (length adx_smooth) - 1 + int period - 1 < int (length pdi)
             then py_nth pdi (int (length adx_smooth) - 1 + int period - 1) else Inr NaN) = Inr p"
    and m: "(if int (length adx_smooth) - 1 + int period - 1 < int (length mdi)
             then py_nth mdi (int (length adx_smooth) - 1 + int period - 1) else Inr NaN) = Inr m"
    and r: "r = \<lparr>adx = (if notna a then round2 a else NaN), plus_di = round2 p, minus_di = round2 m\<rparr>"
    unfolding adx_summary_def Let_def by (auto split: sum.splits)
  from py_nth_Inr_nonempty[OF a] have ne: "adx_smooth \<noteq> []" .
  from py_nth_last[OF ne] a have "a = last adx_smooth" by simp
  with r have "adx r = round2 (last adx_smooth)"
    by (auto simp: notna_def round2_NaN)
  with ne p m r show ?thesis by auto
qed

lemma calculate_adx_parts:
  assumes "period + 1 \<le> length data" "calculate_adx data period = Inr r"
  shows "\<exists>pdi mdi dx adx_smooth.
           di_dx_series data period = Inr (pdi, mdi, dx) \<and>
           wilders_smooth dx period = Inr adx_smooth \<and>
           adx_summary adx_smooth pdi mdi period = Inr r \<and>
           length pdi = length data - 1 \<and> length mdi = length data - 1 \<and>
           length adx_smooth = length data - 1"
proof -
  from assms obtain pdi mdi dx adx_smooth where
    s: "di_dx_series data period = Inr (pdi, mdi, dx)"
    and w: "wilders_smooth dx period = Inr adx_smooth"
    and a: "adx_summary adx_smooth pdi mdi period = Inr r"
    unfolding calculate_adx_def by (auto split: sum.splits)
  from di_dx_series_lengths[OF s] wilders_smooth_length[OF w] s w a show ?thesis by simp
qed

text \<open>
  Claim C2. With \<open>period \<ge> 2\<close> and at least \<open>period + 1\<close> rows, whatever
  \<^verbatim>\<open>calculate_adx\<close> returns has NaN for \<open>plus_di\<close> and \<open>minus_di\<close>: the DI
  series have \<open>n - 1\<close> entries, and the index read, \<open>last_idx + period - 1\<close> with
  \<open>last_idx = n - 2\<close>, lies past their last index. It does return when every row has
  its five leading columns.
\<close>

theorem calculate_adx_di_undefined:
  assumes "2 \<le> period" "period + 1 \<le> length data"
  shows "(\<forall>r. calculate_adx data period = Inr r \<longrightarrow>
            plus_di r = NaN \<and> minus_di r = NaN \<and>
            (\<exists>pdi mdi dx adx_smooth.
               di_dx_series data period = Inr (pdi, mdi, dx) \<and>
               wilders_smooth dx period = Inr adx_smooth \<and>
               length pdi = length data - 1 \<and> length mdi = length data - 1 \<and>
               length adx_smooth = length data - 1 \<and>
               int (length pdi) - 1 < int (length adx_smooth) - 1 + int period - 1))
         \<and> ((\<forall>row \<in> set data. 5 \<le> length row) \<longrightarrow> (\<exists>r. calculate_adx data period = Inr r))"
proof (intro conjI allI impI)
  fix r
  assume r: "calculate_adx data period = Inr r"
  from calculate_adx_parts[OF assms(2) r] obtain pdi mdi dx adx_smooth where
    s: "di_dx_series data period = Inr (pdi, mdi, dx)"
    and w: "wilders_smooth dx period = Inr adx_smooth"
    and a: "adx_summary adx_smooth pdi mdi period = Inr r"
    and len: "length pdi = length data - 1" "length mdi = length data - 1"
      "length adx_smooth = length data - 1"
    by blast
  from assms len have k: "int (length pdi) - 1 < int (length adx_smooth) - 1 + int period - 1"
    by simp
  from adx_summary_value[OF a] k len have di: "plus_di r = NaN \<and> minus_di r = NaN"
    by (auto simp: round2_NaN)
  from di show "plus_di r = NaN" by simp
  from di show "minus_di r = NaN" by simp
  from s w len k show "\<exists>pdi mdi dx adx_smooth.
               di_dx_series data period = Inr (pdi, mdi, dx) \<and>
               wilders_smooth dx period = Inr adx_smooth \<and>
               length pdi = length data - 1 \<and> length mdi = length data - 1 \<and>
               length adx_smooth = length data - 1 \<and>
               int (length pdi) - 1 < int (length adx_smooth) - 1 + int period - 1"
    by blast
next
  assume wf: "\<forall>row \<in> set data. 5 \<le> length row"
  from assms have "0 < period \<or> 2 \<le> length data" by simp
  from di_dx_series_total[OF wf this] obtain pdi mdi dx where
    s: "di_dx_series data period = Inr (pdi, mdi, dx)" by (metis prod_cases3)
  from assms wilders_smooth_total[of period dx] obtain adx_smooth where
    w: "wilders_smooth dx period = Inr adx_smooth" by auto
  from di_dx_series_lengths[OF s] wilders_smooth_length[OF w] assms
  have len: "length pdi = length data - 1" "length mdi = length data - 1"
    "length adx_smooth = length data - 1" and ne: "adx_smooth \<noteq> []" by auto
  from assms len have k: "\<not> int (length adx_smooth) - 1 + int period - 1 < int (length pdi)"
     "\<not> int (length adx_smooth) - 1 + int period - 1 < int (length mdi)"
    by simp_all
  from py_nth_last[OF ne] k have "\<exists>r. adx_summary adx_smooth pdi mdi period = Inr r"
    unfolding adx_summary_def Let_def by simp
  with assms s w show "\<exists>r. calculate_adx data period = Inr r"
    by (simp add: calculate_adx_def)
qed

theorem calculate_adx_di_undefined_witness:
  "(2::nat) \<le> 2 \<and>
   2 + 1 \<le> length ([[NaN, Some 9, Some 10, Some 8, Some 9, Some 100],
                      [NaN, Some 9, Some 11, Some 8, Some 10, Some 100],
                      [NaN, Some 10, Some 12, Some 9, Some 11, Some 100]] :: fl list list) \<and>
   (\<exists>r. calculate_adx [[NaN, Some 9, Some 10, Some 8, Some 9, Some 100],
                        [NaN, Some 9, Some 11, Some 8, Some 10, Some 100],
                        [NaN, Some 10, Some 12, Some 9, Some 11, Some 100]] 2 = Inr r \<and>
        plus_di r = NaN \<and> minus_di r = NaN)"
proof -
  let ?D = "[[NaN, Some 9, Some 10, Some 8, Some 9, Some 100],
             [NaN, Some 9, Some 11, Some 8, Some 10, Some 100],
             [NaN, Some 10, Some 12, Some 9, Some 11, Some 100]] :: fl list list"
  have a: "(2::nat) \<le> 2" and b: "2 + 1 \<le> length ?D" by simp_all
  have wf: "\<forall>row \<in> set ?D. 5 \<le> length row" by simp
  from calculate_adx_di_undefined[OF a b] wf obtain r where r: "calculate_adx ?D 2 = Inr r" by blast
  with calculate_adx_di_undefined[OF a b] have "plus_di r = NaN \<and> minus_di r = NaN" by blast
  with a b r show ?thesis by blast
qed


lemma wilders_smooth_0:
  "wilders_smooth series 0 = Inr out \<Longrightarrow> out = replicate (length series) NaN"
  by (auto simp: wilders_smooth_def split: if_splits)

lemma di_dx_at_NaN:
  "i < n \<Longrightarrow> di_dx_at (replicate n NaN) pdm mdm i = Inr (NaN, NaN, NaN)"
  by (simp add: di_dx_at_def nth_e_def notna_def)

lemma di_dx_series_period_0:
  assumes "di_dx_series data 0 = Inr (pdi, mdi, dx)"
  shows "pdi = replicate (length data - 1) NaN \<and> mdi = replicate (length data - 1) NaN"
proof -
  from assms obtain series smooth_tr smooth_pdm smooth_mdm rows where
    tr: "wilders_smooth series 0 = Inr smooth_tr"
    and rows: "emap (di_dx_at smooth_tr smooth_pdm smooth_mdm) [0 ..< length smooth_tr] = Inr rows"
    and res: "pdi = map fst rows" "mdi = map (fst \<circ> snd) rows"
    unfolding di_dx_series_def Let_def by (auto split: sum.splits)
  define n where "n = length series"
  from wilders_smooth_0[OF tr] have st: "smooth_tr = replicate n NaN" by (simp add: n_def)
  have "emap (di_dx_at (replicate n NaN) smooth_pdm smooth_mdm) [0 ..< n]
      = emap (\<lambda>i. Inr (NaN, NaN, NaN)) [0 ..< n]"
    by (rule emap_cong) (simp add: di_dx_at_NaN)
  with rows st have "rows = map (\<lambda>i. (NaN, NaN, NaN)) [0 ..< n]"
    by (simp add: emap_Inr)
  with res have "pdi = replicate n NaN \<and> mdi = replicate n NaN"
    by (simp add: map_replicate_const comp_def)
  with di_dx_series_lengths[OF assms] show ?thesis by auto
qed

lemma calculate_adx_returns:
  assumes "period + 1 \<le> length data"
    and wf: "(\<forall>row \<in> set data. 5 \<le> length row) \<and> 2 \<le> length data"
  shows "\<exists>r. calculate_adx data period = Inr r"
proof -
  from di_dx_series_total[of data period] wf obtain y where
    y: "di_dx_series data period = Inr y" by blast
  obtain pdi mdi dx where "y = (pdi, mdi, dx)" by (cases y)
  with y have s: "di_dx_series data period = Inr (pdi, mdi, dx)" by simp
  from di_dx_series_lengths[OF s] wf have len: "length pdi = length data - 1"
    "length mdi = length data - 1" "length dx = length data - 1" and dx: "dx \<noteq> []" by auto
  from dx wilders_smooth_total[of period dx] obtain adx_smooth where
    w: "wilders_smooth dx period = Inr adx_smooth" by auto
  from wilders_smooth_length[OF w] len dx have la: "length adx_smooth = length data - 1"
    and ne: "adx_smooth \<noteq> []" by auto
  define k where "k = int (length adx_smooth) - 1 + int period - 1"
  from la len wf have kb: "- int (length pdi) \<le> k" "- int (length mdi) \<le> k"
    unfolding k_def by simp_all
  have "\<exists>p. (if k < int (length pdi) then py_nth pdi k else Inr NaN) = Inr p"
    using py_nth_total[OF kb(1)] by (cases "k < int (length pdi)") simp_all
  then obtain p where
    p: "(if int (length pdi) > k then py_nth pdi k else Inr NaN) = Inr p" by blast
  have "\<exists>m. (if k < int (length mdi) then py_nth mdi k else Inr NaN) = Inr m"
    using py_nth_total[OF kb(2)] by (cases "k < int (length mdi)") simp_all
  then obtain m where
    m: "(if int (length mdi) > k then py_nth mdi k else Inr NaN) = Inr m" by blast
  have "\<exists>r. adx_summary adx_smooth pdi mdi period = Inr r"
    unfolding adx_summary_def Let_def k_def[symmetric] py_nth_last[OF ne] p m by simp
  with assms(1) s w show "\<exists>r. calculate_adx data period = Inr r"
    by (simp add: calculate_adx_def)
qed

lemma wilders_loop_NaN: "wilders_loop p NaN xs = replicate (length xs) NaN"
  by (induction xs) (simp_all add: Let_def fmul_def fadd_def fdiv_def)

lemma wilders_smooth_head_NaN:
  assumes "wilders_smooth series p = Inr out" "series \<noteq> []" "series ! 0 = NaN"
  shows "out = replicate (length series) NaN"
proof (cases "length series < p \<or> p = 0")
  case True
  with assms(1,2) show ?thesis by (auto simp: wilders_smooth_def split: if_splits)
next
  case False
  then have p: "0 < p" "p \<le> length series" by simp_all
  from assms(2,3) p(1) have "NaN \<in> set (take p series)"
    by (cases series; cases p) simp_all
  then have "fmean (take p series) = NaN" by (simp add: fmean_def)
  with assms(1) p have "out = replicate (p - 1) NaN @ NaN # replicate (length series - p) NaN"
    by (simp add: wilders_smooth_def Let_def wilders_loop_NaN)
  also have "\<dots> = replicate (p - 1) NaN @ replicate (Suc (length series - p)) NaN" by simp
  also have "\<dots> = replicate (p - 1 + Suc (length series - p)) NaN"
    by (simp only: replicate_add)
  also from p have "p - 1 + Suc (length series - p) = length series" by arith
  finally show ?thesis .
qed

lemma wilders_smooth_first_NaN:
  assumes "wilders_smooth series p = Inr out" "2 \<le> p" "series \<noteq> []"
  shows "out ! 0 = NaN"
proof (cases "length series < p")
  case True
  with assms(1) have "out = replicate (length series) NaN" by (simp add: wilders_smooth_def)
  with assms(3) show ?thesis by simp
next
  case False
  with assms have "out = replicate (p - 1) NaN @ fmean (take p series)
      # wilders_loop p (fmean (take p series)) (drop p series)"
    by (simp add: wilders_smooth_def Let_def)
  with assms(2) show ?thesis by (simp add: nth_append)
qed

lemma dx_first_NaN:
  assumes "di_dx_series data period = Inr (pdi, mdi, dx)" "2 \<le> period" "dx \<noteq> []"
  shows "dx ! 0 = NaN"
proof -
  from assms(1) obtain series smooth_tr smooth_pdm smooth_mdm rows where
    tr: "wilders_smooth series period = Inr smooth_tr"
    and rows: "emap (di_dx_at smooth_tr smooth_pdm smooth_mdm) [0 ..< length smooth_tr] = Inr rows"
    and res: "dx = map (snd \<circ> snd) rows"
    unfolding di_dx_series_def Let_def by (auto split: sum.splits)
  from emap_length[OF rows] res assms(3) have ne: "smooth_tr \<noteq> []" by auto
  with wilders_smooth_length[OF tr] have "series \<noteq> []" by auto
  from wilders_smooth_first_NaN[OF tr assms(2) this] have t0: "smooth_tr ! 0 = NaN" .
  from ne have "0 < length [0 ..< length smooth_tr]" by simp
  from emap_nth[OF rows this] ne have "di_dx_at smooth_tr smooth_pdm smooth_mdm 0 = Inr (rows ! 0)"
    by simp
  with t0 ne have "rows ! 0 = (NaN, NaN, NaN)"
    by (simp add: di_dx_at_def nth_e_def notna_def)
  with res emap_length[OF rows] ne show ?thesis by simp
qed

text \<open>
  With a period of 2 or more the DX series starts with NaN, the first mean of
  \<^verbatim>\<open>wilders_smooth\<close> takes that entry in, and the recurrence keeps NaN from then
  on: the \<open>adx\<close> that \<^verbatim>\<open>calculate_adx\<close> returns is NaN for every series.
\<close>

lemma calculate_adx_adx_undefined:
  assumes "2 \<le> period" "calculate_adx data period = Inr r"
  shows "adx r = NaN"
proof (cases "length data < period + 1")
  case True
  with assms(2) show ?thesis by (auto simp: calculate_adx_def)
next
  case False
  then have n: "period + 1 \<le> length data" by simp
  from calculate_adx_parts[OF n assms(2)] obtain pdi mdi dx adx_smooth where
    s: "di_dx_series data period = Inr (pdi, mdi, dx)"
    and w: "wilders_smooth dx period = Inr adx_smooth"
    and a: "adx_summary adx_smooth pdi mdi period = Inr r"
    by blast
  from adx_summary_value[OF a] have ne: "adx_smooth \<noteq> []"
    and ad: "adx r = round2 (last adx_smooth)" by simp_all
  from wilders_smooth_length[OF w] ne have dx: "dx \<noteq> []" by auto
  from wilders_smooth_head_NaN[OF w dx dx_first_NaN[OF s assms(1) dx]]
  have "adx_smooth = replicate (length dx) NaN" .
  with dx have "last adx_smooth = NaN" by (cases "length dx") simp_all
  with ad show ?thesis by (simp add: round2_NaN)
qed

text \<open>
  With period 1 the smoothed series are the series themselves until a NaN comes, and one
  of the two directional movements of a day is 0: every DX is NaN, 0, 100 or -100, and
  rounding to two decimals leaves such a value as it is.
\<close>

lemma round2_whole_pct: "x \<in> {NaN, Some 0, Some 100, Some (- 100)} \<Longrightarrow> round2 x = x"
  by (auto simp: round2_def round_half_even_def)

lemma wilders_loop_1:
  "i < length xs \<Longrightarrow> wilders_loop 1 prev xs ! i = NaN \<or> wilders_loop 1 prev xs ! i = xs ! i"
proof (induction xs arbitrary: prev i)
  case Nil
  then show ?case by simp
next
  case (Cons x xs)
  show ?case
  proof (cases i)
    case 0
    then show ?thesis
      by (cases prev; cases x) (simp_all add: Let_def fmul_def fadd_def fdiv_def)
  next
    case (Suc j)
    with Cons.prems have "j < length xs" by simp
    from Cons.IH[OF this] Suc show ?thesis by (simp add: Let_def)
  qed
qed

lemma fmean_single: "fmean [x] = x"
  by (cases x) (simp_all add: fmean_def mean_def drop_nan_def map_filter_simps)

lemma wilders_smooth_1:
  assumes "wilders_smooth series 1 = Inr out" "i < length series"
  shows "out ! i = NaN \<or> out ! i = series ! i"
proof -
  from assms(2) obtain x xs where s: "series = x # xs" by (cases series) auto
  with assms(1) have out: "out = x # wilders_loop 1 x xs"
    by (simp add: wilders_smooth_def Let_def fmean_single)
  show ?thesis
  proof (cases i)
    case 0
    with out s show ?thesis by simp
  next
    case (Suc j)
    with assms(2) s have "j < length xs" by simp
    from wilders_loop_1[OF this, of x] Suc out s show ?thesis by simp
  qed
qed

lemma dm_tr_dm:
  assumes "dm_tr a b = (t, p, m)"
  shows "\<exists>x y. p = Some x \<and> m = Some y \<and> 0 \<le> x \<and> 0 \<le> y \<and> (x = 0 \<or> y = 0)"
proof -
  obtain h0 l0 c0 where a: "a = (h0, l0, c0)" by (cases a)
  obtain h1 l1 c1 where b: "b = (h1, l1, c1)" by (cases b)
  from assms show ?thesis
    unfolding a b dm_tr_def Let_def
    by (auto simp: fgt_def py_max_def fsub_def split: option.splits if_splits)
qed

lemma di_dx_whole:
  assumes "p = NaN \<or> (\<exists>x. p = Some x \<and> 0 \<le> x \<and> (x = 0 \<or> m = Some 0 \<or> m = NaN))"
    and "m = NaN \<or> (\<exists>y. m = Some y \<and> 0 \<le> y)"
    and "tr \<noteq> Some 0"
  shows "snd (snd (di_dx tr p m)) \<in> {NaN, Some 0, Some 100, Some (- 100)}"
proof (cases tr)
  case None
  then show ?thesis
    by (simp add: di_dx_def Let_def fdiv_def fmul_def fadd_def fsub_def fabs_def
        split: option.splits)
next
  case (Some t)
  with assms(3) have t: "t \<noteq> 0" by simp
  show ?thesis
  proof (cases p)
    case None
    then show ?thesis
      by (simp add: di_dx_def Let_def fdiv_def fmul_def fadd_def fsub_def fabs_def
          split: option.splits)
  next
    case px: (Some x)
    show ?thesis
    proof (cases m)
      case None
      with px Some show ?thesis
        by (simp add: di_dx_def Let_def fdiv_def fmul_def fadd_def fsub_def fabs_def)
    next
      case my: (Some y)
      from assms(1) px my have x0: "0 \<le> x" and xy: "x = 0 \<or> y = 0" by auto
      from assms(2) my have y0: "0 \<le> y" by auto
      have dx: "snd (snd (di_dx tr p m)) =
          (if x / t * 100 + y / t * 100 \<noteq> 0
           then Some (\<bar>x / t * 100 - y / t * 100\<bar> / (x / t * 100 + y / t * 100) * 100)
           else Some 0)"
        using t by (simp add: di_dx_def Let_def Some px my fdiv_def fmul_def fadd_def fsub_def fabs_def)
      have sign: "\<bar>z\<bar> / z * 100 = 100 \<or> \<bar>z\<bar> / z * 100 = - 100" if "z \<noteq> 0" for z :: real
        using that by (cases "0 < z") (simp_all add: abs_if)
      define z where "z = (if x = 0 then y / t * 100 else x / t * 100)"
      from xy have num: "\<bar>x / t * 100 - y / t * 100\<bar> = \<bar>z\<bar>"
        and den: "x / t * 100 + y / t * 100 = z"
        by (auto simp: z_def)
      have "snd (snd (di_dx tr p m)) = (if z \<noteq> 0 then Some (\<bar>z\<bar> / z * 100) else Some 0)"
        unfolding dx num den ..
      with sign[of z] show ?thesis
        by (cases "z = 0") (auto simp:)
    qed
  qed
qed


lemma dx_period_1:
  assumes "di_dx_series data 1 = Inr (pdi, mdi, dx)" "i < length dx"
  shows "dx ! i \<in> {NaN, Some 0, Some 100, Some (- 100)}"
proof -
  from assms(1) obtain adj smooth_tr smooth_pdm smooth_mdm rows where
    tr0: "wilders_smooth (map (fst \<circ> (\<lambda>(x, y). dm_tr x y)) adj) 1 = Inr smooth_tr"
    and pdm0: "wilders_smooth (map (fst \<circ> snd \<circ> (\<lambda>(x, y). dm_tr x y)) adj) 1 = Inr smooth_pdm"
    and mdm0: "wilders_smooth (map (snd \<circ> snd \<circ> (\<lambda>(x, y). dm_tr x y)) adj) 1 = Inr smooth_mdm"
    and rows: "emap (di_dx_at smooth_tr smooth_pdm smooth_mdm) [0 ..< length smooth_tr] = Inr rows"
    and res: "dx = map (snd \<circ> snd) rows"
    unfolding di_dx_series_def Let_def by (auto split: sum.splits)
  define steps where "steps = map (\<lambda>(x, y). dm_tr x y) adj"
  from tr0 have tr: "wilders_smooth (map fst steps) 1 = Inr smooth_tr"
    by (simp add: steps_def)
  from pdm0 have pdm: "wilders_smooth (map (fst \<circ> snd) steps) 1 = Inr smooth_pdm"
    by (simp add: steps_def)
  from mdm0 have mdm: "wilders_smooth (map (snd \<circ> snd) steps) 1 = Inr smooth_mdm"
    by (simp add: steps_def)
  have steps: "\<forall>s \<in> set steps. \<exists>a b. s = dm_tr a b"
  proof
    fix s
    assume "s \<in> set steps"
    then obtain ab where "ab \<in> set adj" "s = (\<lambda>(x, y). dm_tr x y) ab"
      unfolding steps_def by auto
    then have "s = dm_tr (fst ab) (snd ab)" by (simp add: case_prod_beta)
    then show "\<exists>a b. s = dm_tr a b" by blast
  qed
  from wilders_smooth_length[OF tr] wilders_smooth_length[OF pdm] wilders_smooth_length[OF mdm]
  have len: "length smooth_tr = length steps" "length smooth_pdm = length steps"
    "length smooth_mdm = length steps" by simp_all
  from emap_length[OF rows] res assms(2) len have i: "i < length steps" "i < length rows"
    by simp_all
  from emap_nth[OF rows, of i] i len have "di_dx_at smooth_tr smooth_pdm smooth_mdm i = Inr (rows ! i)"
    by simp
  with di_dx_at_value[of i smooth_tr smooth_pdm smooth_mdm] i len
  have row: "rows ! i = (if notna (smooth_tr ! i) \<and> smooth_tr ! i \<noteq> Some 0
                then di_dx (smooth_tr ! i) (smooth_pdm ! i) (smooth_mdm ! i) else (NaN, NaN, NaN))"
    by simp
  show ?thesis
  proof (cases "notna (smooth_tr ! i) \<and> smooth_tr ! i \<noteq> Some 0")
    case False
    with row res i show ?thesis by simp
  next
    case True
    from steps i obtain a b where ab: "steps ! i = dm_tr a b" by (metis nth_mem)
    obtain t p m where tpm: "dm_tr a b = (t, p, m)" by (cases "dm_tr a b")
    from dm_tr_dm[OF tpm] obtain x y where
      xy: "p = Some x" "m = Some y" "0 \<le> x" "0 \<le> y" "x = 0 \<or> y = 0" by blast
    from wilders_smooth_1[OF pdm, of i] i ab tpm
    have sp: "smooth_pdm ! i = NaN \<or> smooth_pdm ! i = p" by simp
    from wilders_smooth_1[OF mdm, of i] i ab tpm
    have sm: "smooth_mdm ! i = NaN \<or> smooth_mdm ! i = m" by simp
    from sp sm xy have a1: "smooth_pdm ! i = NaN \<or>
        (\<exists>x. smooth_pdm ! i = Some x \<and> 0 \<le> x \<and>
           (x = 0 \<or> smooth_mdm ! i = Some 0 \<or> smooth_mdm ! i = NaN))"
      by auto
    from sm xy have a2: "smooth_mdm ! i = NaN \<or> (\<exists>y. smooth_mdm ! i = Some y \<and> 0 \<le> y)"
      by auto
    from True have a3: "smooth_tr ! i \<noteq> Some 0" by simp
    from di_dx_whole[OF a1 a2 a3] row True res i show ?thesis by simp
  qed
qed


lemma adx_smooth_last_unrounded:
  assumes "di_dx_series data period = Inr (pdi, mdi, dx)"
    and "wilders_smooth dx period = Inr adx_smooth" "adx_smooth \<noteq> []"
  shows "round2 (last adx_smooth) = last adx_smooth"
proof -
  from wilders_smooth_length[OF assms(2)] assms(3) have dx: "dx \<noteq> []" by auto
  consider "period = 0" | "period = 1" | "2 \<le> period" by arith
  then show ?thesis
  proof cases
    case 1
    with assms(2) have "adx_smooth = replicate (length dx) NaN"
      by (simp add: wilders_smooth_0)
    with dx have "last adx_smooth = NaN" by (cases "length dx") simp_all
    then show ?thesis by (simp add: round2_NaN)
  next
    case 2
    define i where "i = length dx - 1"
    from dx have i: "i < length dx" by (cases dx) (simp_all add: i_def)
    from assms(3) wilders_smooth_length[OF assms(2)] have l: "last adx_smooth = adx_smooth ! i"
      by (simp add: last_conv_nth i_def)
    from assms(1,2) 2 have s1: "di_dx_series data 1 = Inr (pdi, mdi, dx)"
      and w1: "wilders_smooth dx 1 = Inr adx_smooth" by simp_all
    from wilders_smooth_1[OF w1 i] dx_period_1[OF s1 i] l
    have "last adx_smooth \<in> {NaN, Some 0, Some 100, Some (- 100)}" by auto
    then show ?thesis by (rule round2_whole_pct)
  next
    case 3
    from wilders_smooth_head_NaN[OF assms(2) dx dx_first_NaN[OF assms(1) 3 dx]]
    have "adx_smooth = replicate (length dx) NaN" .
    with dx have "last adx_smooth = NaN" by (cases "length dx") simp_all
    then show ?thesis by (simp add: round2_NaN)
  qed
qed

text \<open>
  Claim C3, as the code has it. With at least \<open>period + 1\<close> rows, whatever
  \<^verbatim>\<open>calculate_adx\<close> returns is read from the series it built: \<open>plus_di\<close> and
  \<open>minus_di\<close> are the entries of the DI series at index \<open>last_idx + period - 1\<close>,
  rounded to two decimals, when that index is within the series, and NaN otherwise;
  \<open>adx\<close> is the last entry of the Wilder-smoothed DX series (the rounding the source
  applies to it changes nothing, by \<open>adx_smooth_last_unrounded\<close>). The call returns
  when there are at least two rows and every row has its five leading columns.
\<close>

theorem calculate_adx_summary_rounded:
  assumes "period + 1 \<le> length data"
  shows "(\<forall>r. calculate_adx data period = Inr r \<longrightarrow>
           (\<exists>pdi mdi dx adx_smooth.
              di_dx_series data period = Inr (pdi, mdi, dx) \<and>
              wilders_smooth dx period = Inr adx_smooth \<and> adx_smooth \<noteq> [] \<and>
              (let k = int (length adx_smooth) - 1 + int period - 1 in
                 plus_di r = (if 0 \<le> k \<and> k < int (length pdi) then round2 (pdi ! nat k) else NaN) \<and>
                 minus_di r = (if 0 \<le> k \<and> k < int (length mdi) then round2 (mdi ! nat k) else NaN)) \<and>
              adx r = last adx_smooth))
         \<and> ((\<forall>row \<in> set data. 5 \<le> length row) \<and> 2 \<le> length data \<longrightarrow>
               (\<exists>r. calculate_adx data period = Inr r))"
proof (intro conjI allI impI)
  fix r
  assume r: "calculate_adx data period = Inr r"
  from calculate_adx_parts[OF assms r] obtain pdi mdi dx adx_smooth where
    s: "di_dx_series data period = Inr (pdi, mdi, dx)"
    and w: "wilders_smooth dx period = Inr adx_smooth"
    and a: "adx_summary adx_smooth pdi mdi period = Inr r"
    and len: "length pdi = length data - 1" "length mdi = length data - 1"
      "length adx_smooth = length data - 1"
    by blast
  define k where "k = int (length adx_smooth) - 1 + int period - 1"
  from adx_summary_value[OF a] obtain p m where
    ne: "adx_smooth \<noteq> []" and ad0: "adx r = round2 (last adx_smooth)"
    and p: "(if k < int (length pdi) then py_nth pdi k else Inr NaN) = Inr p"
    and m: "(if k < int (length mdi) then py_nth mdi k else Inr NaN) = Inr m"
    and pm: "plus_di r = round2 p" "minus_di r = round2 m"
    unfolding k_def by blast
  from adx_smooth_last_unrounded[OF s w ne] ad0 have ad: "adx r = last adx_smooth" by simp
  have "p = (if 0 \<le> k \<and> k < int (length pdi) then pdi ! nat k else NaN)
      \<and> m = (if 0 \<le> k \<and> k < int (length mdi) then mdi ! nat k else NaN)"
  proof (cases "0 \<le> k")
    case True
    with p m show ?thesis
      by (auto simp: py_nth_in_bounds split: if_splits)
  next
    case False
    from ne have pos: "0 < length adx_smooth" by simp
    from False pos have p0: "period = 0" unfolding k_def by arith
    from False pos have l1: "length adx_smooth = 1" unfolding k_def by arith
    from p0 l1 have k1: "k = - 1" unfolding k_def by simp
    from s p0 have "di_dx_series data 0 = Inr (pdi, mdi, dx)" by simp
    from di_dx_series_period_0[OF this] len l1 have "pdi = [NaN]" "mdi = [NaN]" by simp_all
    with p m k1 show ?thesis by (simp add: py_nth_def)
  qed
  with pm have "plus_di r = (if 0 \<le> k \<and> k < int (length pdi) then round2 (pdi ! nat k) else NaN) \<and>
         minus_di r = (if 0 \<le> k \<and> k < int (length mdi) then round2 (mdi ! nat k) else NaN)"
    by (simp add: round2_NaN)
  with s w ne ad show "\<exists>pdi mdi dx adx_smooth.
              di_dx_series data period = Inr (pdi, mdi, dx) \<and>
              wilders_smooth dx period = Inr adx_smooth \<and> adx_smooth \<noteq> [] \<and>
              (let k = int (length adx_smooth) - 1 + int period - 1 in
                 plus_di r = (if 0 \<le> k \<and> k < int (length pdi) then round2 (pdi ! nat k) else NaN) \<and>
                 minus_di r = (if 0 \<le> k \<and> k < int (length mdi) then round2 (mdi ! nat k) else NaN)) \<and>
              adx r = last adx_smooth"
    unfolding k_def Let_def by blast
next
  assume "(\<forall>row \<in> set data. 5 \<le> length row) \<and> 2 \<le> length data"
  with assms show "\<exists>r. calculate_adx data period = Inr r"
    by (rule calculate_adx_returns)
qed

theorem calculate_adx_summary_rounded_witness:
  "1 + 1 \<le> length ([[NaN, Some 9, Some 10, Some 8, Some 9, Some 100],
      [NaN, Some 9, Some 11, Some 8, Some 10, Some 100]] :: fl list list) \<and>
   calculate_adx [[NaN, Some 9, Some 10, Some 8, Some 9, Some 100],
      [NaN, Some 9, Some 11, Some 8, Some 10, Some 100]] 1
     = Inr \<lparr>adx = Some 100, plus_di = Some (3333 / 100), minus_di = Some 0\<rparr> \<and>
   (\<exists>pdi mdi dx adx_smooth.
      di_dx_series [[NaN, Some 9, Some 10, Some 8, Some 9, Some 100],
      [NaN, Some 9, Some 11, Some 8, Some 10, Some 100]] 1 = Inr (pdi, mdi, dx) \<and>
      wilders_smooth dx 1 = Inr adx_smooth \<and> adx_smooth \<noteq> [] \<and>
      (let k = int (length adx_smooth) - 1 + int 1 - 1 in
         plus_di \<lparr>adx = Some 100, plus_di = Some (3333 / 100), minus_di = Some 0\<rparr>
           = (if 0 \<le> k \<and> k < int (length pdi) then round2 (pdi ! nat k) else NaN) \<and>
         minus_di \<lparr>adx = Some 100, plus_di = Some (3333 / 100), minus_di = Some 0\<rparr>
           = (if 0 \<le> k \<and> k < int (length mdi) then round2 (mdi ! nat k) else NaN)) \<and>
      adx \<lparr>adx = Some 100, plus_di = Some (3333 / 100), minus_di = Some 0\<rparr>
        = last adx_smooth)"
proof -
  let ?D = "[[NaN, Some 9, Some 10, Some 8, Some 9, Some 100],
      [NaN, Some 9, Some 11, Some 8, Some 10, Some 100]] :: fl list list"
  have n: "1 + 1 \<le> length ?D" by simp
  have r: "calculate_adx ?D 1
     = Inr \<lparr>adx = Some 100, plus_di = Some (3333 / 100), minus_di = Some 0\<rparr>"
    by code_simp
  from calculate_adx_summary_rounded[OF n] r n show ?thesis by blast
qed

text \<open>
  The claim as it is written, without the rounding, fails: two rows and period 1 put the
  index read at 0, within the DI series, whose entry there is \<open>100 / 3\<close>; the value
  reported is \<open>33.33\<close>.
\<close>

theorem calculate_adx_summary_counterexample:
  "di_dx_series [[NaN, Some 9, Some 10, Some 8, Some 9, Some 100],
      [NaN, Some 9, Some 11, Some 8, Some 10, Some 100]] 1 = Inr ([Some (100 / 3)], [Some 0], [Some 100]) \<and>
   wilders_smooth [Some 100] 1 = Inr [Some 100] \<and>
   int (length [Some (100 / 3 :: real)]) - 1 + int 1 - 1 = 0 \<and>
   calculate_adx [[NaN, Some 9, Some 10, Some 8, Some 9, Some 100],
      [NaN, Some 9, Some 11, Some 8, Some 10, Some 100]] 1
     = Inr \<lparr>adx = Some 100, plus_di = Some (3333 / 100), minus_di = Some 0\<rparr> \<and>
   plus_di \<lparr>adx = Some 100, plus_di = Some (3333 / 100), minus_di = Some 0\<rparr>
     \<noteq> [Some (100 / 3)] ! 0"
proof -
  have a: "di_dx_series [[NaN, Some 9, Some 10, Some 8, Some 9, Some 100],
      [NaN, Some 9, Some 11, Some 8, Some 10, Some 100]] 1 = Inr ([Some (100 / 3)], [Some 0], [Some 100])"
    by code_simp
  have b: "wilders_smooth [Some 100] 1 = Inr [Some 100]"
    by code_simp
  have c: "calculate_adx [[NaN, Some 9, Some 10, Some 8, Some 9, Some 100],
      [NaN, Some 9, Some 11, Some 8, Some 10, Some 100]] 1
     = Inr \<lparr>adx = Some 100, plus_di = Some (3333 / 100), minus_di = Some 0\<rparr>"
    by code_simp
  from a b c show ?thesis by simp
qed

section \<open>The indicators return on well-formed rows\<close>

lemma cell_value:
  "j < length data \<Longrightarrow> c < length (data ! j) \<Longrightarrow> cell data j c = Inr (data ! j ! c)"
  by (simp add: cell_def nth_e_def)

lemma emap_cell_total:
  assumes "\<forall>row \<in> set data. c < length row" "\<forall>j \<in> set js. j < length data"
  shows "emap (\<lambda>j. cell data j c) js = Inr (map (\<lambda>j. data ! j ! c) js)"
proof -
  have "emap (\<lambda>j. cell data j c) js = emap (\<lambda>j. Inr (data ! j ! c)) js"
    using assms by (intro emap_cong cell_value) auto
  then show ?thesis by (simp add: emap_Inr)
qed

lemma moving_avg_at_total:
  assumes "\<forall>row \<in> set data. c < length row" "i < length data"
  shows "\<exists>v. moving_avg_at data lookback c i = Inr v"
proof -
  define js where "js = [i + 1 - lookback ..< i + 1]"
  from assms(2) have js: "\<forall>j \<in> set js. j < length data" by (auto simp: js_def)
  from window_ma_emap[OF js] emap_cell_total[OF assms(1) js]
  have "\<exists>w. window_ma data c js = Inr w" by simp
  then show ?thesis unfolding moving_avg_at_def js_def[symmetric] by auto
qed

lemma moving_avg_total:
  assumes "\<forall>row \<in> set data. c < length row"
  shows "\<exists>ma. moving_avg data lookback c = Inr ma \<and> length ma = length data"
proof -
  have "\<exists>ma. emap (moving_avg_at data lookback c) [0 ..< length data] = Inr ma"
    by (rule emap_total) (simp add: moving_avg_at_total[OF assms])
  then have "\<exists>ma. moving_avg data lookback c = Inr ma"
    by (cases "data = []") (simp_all add: moving_avg_def)
  then obtain ma where ma: "moving_avg data lookback c = Inr ma" by blast
  with moving_avg_length[OF ma] show ?thesis by simp
qed

lemma ema_step_total:
  assumes "\<forall>row \<in> set data. c < length row" "i < length data"
  shows "\<exists>st'. ema_step data lookback c i st = Inr st'"
proof -
  from assms(2) have "\<forall>j \<in> set [0 ..< i + 1]. j < length data" by auto
  from emap_cell_total[OF assms(1) this]
  have w: "emap (\<lambda>j. cell data j c) [0 ..< i + 1] = Inr (map (\<lambda>j. data ! j ! c) [0 ..< i + 1])" .
  from assms have cur: "cell data i c = Inr (data ! i ! c)"
    by (intro cell_value) auto
  obtain p res where st: "st = (p, res)" by (cases st)
  show ?thesis unfolding ema_step_def st prod.case w cur sum.case Let_def by simp
qed

lemma ema_state_total:
  assumes "\<forall>row \<in> set data. c < length row" "n \<le> length data"
  shows "\<exists>st. ema_state data lookback c n = Inr st"
  using assms(2)
proof (induction n)
  case 0
  then show ?case by (simp add: ema_state_0)
next
  case (Suc n)
  then obtain st where st: "ema_state data lookback c n = Inr st" by auto
  from Suc.prems have "n < length data" by simp
  from ema_step_total[OF assms(1) this, of lookback st] st show ?case
    by (simp add: ema_state_Suc)
qed

lemma ema_total:
  assumes "\<forall>row \<in> set data. c < length row"
  shows "\<exists>out. ema data lookback c = Inr out \<and> length out = length data"
proof -
  from ema_state_total[OF assms, of "length data" lookback] obtain st where
    "ema_state data lookback c (length data) = Inr st" by auto
  then have "\<exists>out. ema data lookback c = Inr out"
    by (cases st; cases "data = []") (simp_all add: ema_def)
  then obtain out where out: "ema data lookback c = Inr out" by blast
  with ema_length[OF out] show ?thesis by simp
qed

lemma emap_diff_at_total:
  assumes "length xs = n" "length ys = n"
  shows "\<exists>zs. emap (diff_at xs ys) [0 ..< n] = Inr zs \<and> length zs = n"
proof -
  have "\<exists>zs. emap (diff_at xs ys) [0 ..< n] = Inr zs"
    using assms by (intro emap_total) (auto simp: diff_at_value)
  then obtain zs where z: "emap (diff_at xs ys) [0 ..< n] = Inr zs" by blast
  from emap_length[OF z] z show ?thesis by simp
qed

lemma macd_total:
  assumes "\<forall>row \<in> set data. c < length row"
  shows "\<exists>l s h. macd data c = Inr (l, s, h) \<and> length l = length data
           \<and> length s = length data \<and> length h = length data"
proof -
  from ema_total[OF assms, of 12] obtain ema12 where
    e12: "ema data 12 c = Inr ema12" "length ema12 = length data" by blast
  from ema_total[OF assms, of 26] obtain ema26 where
    e26: "ema data 26 c = Inr ema26" "length ema26 = length data" by blast
  from emap_diff_at_total[OF e12(2) e26(2)] obtain l where
    l: "emap (diff_at ema12 ema26) [0 ..< length data] = Inr l" "length l = length data" by blast
  have "\<forall>row \<in> set (map (\<lambda>val. [val]) l). 0 < length row" by simp
  from ema_total[OF this, of 9] l(2) obtain s where
    s: "ema (map (\<lambda>val. [val]) l) 9 0 = Inr s" "length s = length data" by auto
  from emap_diff_at_total[OF l(2) s(2)] obtain h where
    h: "emap (diff_at l s) [0 ..< length data] = Inr h" "length h = length data" by blast
  have "macd data c = Inr (l, s, h)"
    unfolding macd_def e12(1) e26(1) l(1) s(1) h(1) sum.case by simp
  with l(2) s(2) h(2) show ?thesis by blast
qed

lemma boll_at_total:
  assumes "\<forall>row \<in> set data. c < length row" "i < length data"
  shows "\<exists>v. boll_at data c period std_dev i = Inr v"
proof -
  define js where "js = [i + 1 - period ..< i + 1]"
  from assms(2) have js: "\<forall>j \<in> set js. j < length data" by (auto simp: js_def)
  show ?thesis
    unfolding boll_at_def js_def[symmetric] emap_cell_total[OF assms(1) js] sum.case Let_def
    by simp
qed

lemma boll_bands_total:
  assumes "\<forall>row \<in> set data. c < length row"
  shows "\<exists>u m l. boll_bands data c period std_dev = Inr (u, m, l) \<and> length u = length data
           \<and> length m = length data \<and> length l = length data"
proof -
  have "\<exists>rows. emap (boll_at data c period std_dev) [0 ..< length data] = Inr rows"
  proof (rule emap_total)
    fix x
    assume "x \<in> set [0 ..< length data]"
    then have "x < length data" by simp
    then show "\<exists>y. boll_at data c period std_dev x = Inr y"
      by (rule boll_at_total[OF assms])
  qed
  then obtain rows where
    rows: "emap (boll_at data c period std_dev) [0 ..< length data] = Inr rows" by blast
  from emap_length[OF rows] have "length rows = length data" by simp
  then show ?thesis unfolding boll_bands_def rows sum.case by simp
qed

lemma calculate_adx_total:
  assumes "\<forall>row \<in> set data. 5 \<le> length row" "0 < period"
  shows "\<exists>r. calculate_adx data period = Inr r"
proof (cases "length data < period + 1")
  case True
  then show ?thesis by (simp add: calculate_adx_def)
next
  case False
  then have n: "period + 1 \<le> length data" by simp
  with assms(2) have "2 \<le> length data" by simp
  with assms(1) have "(\<forall>row \<in> set data. 5 \<le> length row) \<and> 2 \<le> length data" by simp
  with n show ?thesis by (rule calculate_adx_returns)
qed

section \<open>The snapshot of the strategies\<close>

lemma i_10_nat: "(if 0 \<le> int i - 10 then i - 10 else 0) = i - (10::nat)"
  by auto

lemma run_body_snapshot:
  assumes "hist \<noteq> []" "\<forall>row \<in> set hist. 5 \<le> length row"
  shows "\<exists>dma50 dma200 macd_line macd_signal macd_hist bb_upper bb_middle bb_lower adx_results.
    moving_avg hist (min 50 (length hist)) 4 = Inr dma50 \<and>
    moving_avg hist (min 200 (length hist)) 4 = Inr dma200 \<and>
    macd hist 4 = Inr (macd_line, macd_signal, macd_hist) \<and>
    boll_bands hist 4 20 (Some 2) = Inr (bb_upper, bb_middle, bb_lower) \<and>
    calculate_adx hist 14 = Inr adx_results \<and>
    run_body hist =
      Inr (map round2
        ([hist ! (length hist - 1) ! 4, hist ! (length hist - 1 - 10) ! 4,
          dma50 ! (length hist - 1), dma200 ! (length hist - 1)]
         @ daily_changes (hist ! (length hist - 1) ! 4) (hist ! (length hist - 1 - 10) ! 4)
             (dma50 ! (length hist - 1)) (dma200 ! (length hist - 1))
         @ [macd_line ! (length hist - 1), macd_signal ! (length hist - 1),
            macd_hist ! (length hist - 1), bb_upper ! (length hist - 1),
            bb_middle ! (length hist - 1), bb_lower ! (length hist - 1)]
         @ [adx adx_results, plus_di adx_results, minus_di adx_results]))"
proof -
  define i where "i = length hist - 1"
  from assms(1) have i: "i < length hist" by (cases hist) (simp_all add: i_def)
  then have i10: "i - 10 < length hist" by simp
  from assms(2) have wf: "\<forall>row \<in> set hist. 4 < length row" by auto
  from moving_avg_total[OF wf, of "min 50 (length hist)"] obtain dma50 where
    d50: "moving_avg hist (min 50 (length hist)) 4 = Inr dma50" "length dma50 = length hist"
    by blast
  from moving_avg_total[OF wf, of "min 200 (length hist)"] obtain dma200 where
    d200: "moving_avg hist (min 200 (length hist)) 4 = Inr dma200" "length dma200 = length hist"
    by blast
  from moving_avg_total[OF wf, of 20] obtain dma20 where
    d20: "moving_avg hist 20 4 = Inr dma20" by blast
  from macd_total[OF wf] obtain ml ms mh where
    m: "macd hist 4 = Inr (ml, ms, mh)" "length ml = length hist" "length ms = length hist"
      "length mh = length hist" by blast
  from boll_bands_total[OF wf, of 20 "Some 2"] obtain bu bm bl where
    b: "boll_bands hist 4 20 (Some 2) = Inr (bu, bm, bl)" "length bu = length hist"
      "length bm = length hist" "length bl = length hist" by blast
  from calculate_adx_total[OF assms(2), of 14] obtain ar where
    a: "calculate_adx hist 14 = Inr ar" by auto
  from wf i have c1: "cell hist i 4 = Inr (hist ! i ! 4)"
    by (intro cell_value) auto
  from wf i10 have c2: "cell hist (i - 10) 4 = Inr (hist ! (i - 10) ! 4)"
    by (intro cell_value) auto
  from i d50(2) have n1: "nth_e dma50 i = Inr (dma50 ! i)" by (simp add: nth_e_def)
  from i d200(2) have n2: "nth_e dma200 i = Inr (dma200 ! i)" by (simp add: nth_e_def)
  from i m(2-4) b(2-4) have n3:
    "emap (\<lambda>xs. nth_e xs i) [ml, ms, mh, bu, bm, bl]
       = Inr [ml ! i, ms ! i, mh ! i, bu ! i, bm ! i, bl ! i]"
    by (simp add: nth_e_def)
  from assms(1) have "run_body hist =
      Inr (map round2
        ([hist ! i ! 4, hist ! (i - 10) ! 4, dma50 ! i, dma200 ! i]
         @ daily_changes (hist ! i ! 4) (hist ! (i - 10) ! 4) (dma50 ! i) (dma200 ! i)
         @ [ml ! i, ms ! i, mh ! i, bu ! i, bm ! i, bl ! i]
         @ [adx ar, plus_di ar, minus_di ar]))"
    unfolding run_body_def d50(1) d200(1) d20 m(1) b(1) a sum.case prod.case Let_def
      i_def[symmetric] i_10_nat c1 c2 n1 n2 n3
    by simp
  with d50(1) d200(1) m(1) b(1) a show ?thesis
    unfolding i_def by blast
qed

lemma sum_list_pos_real: "w \<noteq> [] \<Longrightarrow> \<forall>x \<in> set w. 0 < x \<Longrightarrow> 0 < sum_list (w :: real list)"
proof (induction w)
  case Nil
  then show ?case by simp
next
  case (Cons a w)
  show ?case
  proof (cases "w = []")
    case True
    with Cons.prems show ?thesis by simp
  next
    case False
    with Cons have "0 < sum_list w" "0 < a" by simp_all
    then show ?thesis by simp
  qed
qed

lemma mean_pos: "w \<noteq> [] \<Longrightarrow> \<forall>x \<in> set w. 0 < x \<Longrightarrow> 0 < mean w"
  by (simp add: mean_def sum_list_pos_real)

lemma drop_nan_map_Some: "drop_nan (map Some xs) = xs"
  by (induction xs) (simp_all add: drop_nan_def map_filter_simps)

lemma drop_nan_positive:
  assumes "\<forall>x \<in> set xs. \<exists>v. 0 < v \<and> x = Some v" "xs \<noteq> []"
  shows "drop_nan xs \<noteq> [] \<and> (\<forall>v \<in> set (drop_nan xs). 0 < v)"
proof -
  from assms(1) have "xs = map Some (map the xs)"
    by (induction xs) auto
  then have d: "drop_nan xs = map the xs" by (metis drop_nan_map_Some)
  with assms show ?thesis by auto
qed

lemma moving_avg_last_pos:
  assumes "data \<noteq> []" "\<forall>row \<in> set data. c < length row \<and> (\<exists>v. 0 < v \<and> row ! c = Some v)"
    and "0 < lookback" "lookback \<le> length data"
    and "moving_avg data lookback c = Inr ma"
  shows "\<exists>d. 0 < d \<and> ma ! (length data - 1) = Some d"
proof -
  define i where "i = length data - 1"
  from assms(1) have i: "i < length data" by (cases data) (simp_all add: i_def)
  define js where "js = [i + 1 - lookback ..< i + 1]"
  from assms(3,4) i have ge: "\<not> int i < int lookback - 1" unfolding i_def by arith
  from assms(3) have jne: "js \<noteq> []" by (simp add: js_def)
  from i have "\<forall>j \<in> set js. j < length data" by (auto simp: js_def)
  with assms(2) have "\<forall>x \<in> set (map (\<lambda>j. data ! j ! c) js). \<exists>v. 0 < v \<and> x = Some v"
    by auto
  from drop_nan_positive[OF this] jne
  have w: "drop_nan (map (\<lambda>j. data ! j ! c) js) \<noteq> []"
    "\<forall>v \<in> set (drop_nan (map (\<lambda>j. data ! j ! c) js)). 0 < v" by simp_all
  from moving_avg_at_value[OF moving_avg_nth[OF assms(5) i] i] ge w(1)
  have "ma ! i = Some (mean (drop_nan (map (\<lambda>j. data ! j ! c) js)))"
    unfolding js_def[symmetric] Let_def by simp
  with mean_pos[OF w] show ?thesis unfolding i_def by blast
qed

lemma weekly_rows_wf:
  "\<forall>row \<in> set (weekly_rows hist). length row = 6 \<and> (\<exists>v. 0 < v \<and> row ! 4 = Some v)"
  by (auto simp: weekly_rows_def valid_day_def fgt_def split: option.splits)

lemma pct_change_value:
  "y \<noteq> 0 \<Longrightarrow> pct_change (Some x) (Some y) = Some ((x - y) / y * 100)"
  by (simp add: pct_change_def fsub_def fdiv_def fmul_def)

lemma i_10_max: "nat (max (int i - 10) 0) = i - 10"
  by auto

lemma weekly_body_snapshot:
  assumes "data \<noteq> []"
    and "\<forall>row \<in> set data. length row = 6 \<and> (\<exists>v. 0 < v \<and> row ! 4 = Some v)"
  shows "\<exists>dma50 dma200 macd_line macd_signal macd_hist bb_upper bb_middle bb_lower adx_results
           price ten d50 d200.
    moving_avg data (min 50 (length data)) 4 = Inr dma50 \<and>
    moving_avg data (min 200 (length data)) 4 = Inr dma200 \<and>
    macd data 4 = Inr (macd_line, macd_signal, macd_hist) \<and>
    boll_bands data 4 20 (Some 2) = Inr (bb_upper, bb_middle, bb_lower) \<and>
    calculate_adx data 14 = Inr adx_results \<and>
    data ! (length data - 1) ! 4 = Some price \<and> 0 < price \<and>
    data ! (length data - 1 - 10) ! 4 = Some ten \<and> 0 < ten \<and>
    dma50 ! (length data - 1) = Some d50 \<and> 0 < d50 \<and>
    dma200 ! (length data - 1) = Some d200 \<and> 0 < d200 \<and>
    weekly_body data =
      Inr ([Some price, Some ten, Some d50, Some d200,
            Some ((price - ten) / ten * 100), Some ((price - d50) / d50 * 100),
            Some ((price - d200) / d200 * 100), Some ((d50 - d200) / d200 * 100),
            macd_line ! (length data - 1), macd_signal ! (length data - 1),
            macd_hist ! (length data - 1), bb_upper ! (length data - 1),
            bb_middle ! (length data - 1), bb_lower ! (length data - 1),
            adx adx_results, plus_di adx_results, minus_di adx_results])"
proof -
  define i where "i = length data - 1"
  from assms(1) have i: "i < length data" by (cases data) (simp_all add: i_def)
  then have i10: "i - 10 < length data" by simp
  from assms(2) have wf: "\<forall>row \<in> set data. 4 < length row" by auto
  from assms(2) have wf5: "\<forall>row \<in> set data. 5 \<le> length row" by auto
  from assms(2) have pos: "\<forall>row \<in> set data. 4 < length row \<and> (\<exists>v. 0 < v \<and> row ! 4 = Some v)"
    by auto
  from assms(1) have l50: "0 < min 50 (length data)" "min 50 (length data) \<le> length data"
    and l200: "0 < min 200 (length data)" "min 200 (length data) \<le> length data"
    by (cases data; simp)+
  from moving_avg_total[OF wf, of "min 50 (length data)"] obtain dma50 where
    d50: "moving_avg data (min 50 (length data)) 4 = Inr dma50" "length dma50 = length data"
    by blast
  from moving_avg_total[OF wf, of "min 200 (length data)"] obtain dma200 where
    d200: "moving_avg data (min 200 (length data)) 4 = Inr dma200" "length dma200 = length data"
    by blast
  from moving_avg_total[OF wf, of 20] obtain dma20 where
    d20: "moving_avg data 20 4 = Inr dma20" by blast
  from macd_total[OF wf] obtain ml ms mh where
    m: "macd data 4 = Inr (ml, ms, mh)" "length ml = length data" "length ms = length data"
      "length mh = length data" by blast
  from boll_bands_total[OF wf, of 20 "Some 2"] obtain bu bm bl where
    b: "boll_bands data 4 20 (Some 2) = Inr (bu, bm, bl)" "length bu = length data"
      "length bm = length data" "length bl = length data" by blast
  from calculate_adx_total[OF wf5, of 14] obtain ar where
    a: "calculate_adx data 14 = Inr ar" by auto
  from pos i obtain price where price: "data ! i ! 4 = Some price" "0 < price"
    by (metis nth_mem)
  from pos i10 obtain ten where ten: "data ! (i - 10) ! 4 = Some ten" "0 < ten"
    by (metis nth_mem)
  from moving_avg_last_pos[OF assms(1) pos l50 d50(1)] obtain v50 where
    v50: "dma50 ! i = Some v50" "0 < v50" unfolding i_def by blast
  from moving_avg_last_pos[OF assms(1) pos l200 d200(1)] obtain v200 where
    v200: "dma200 ! i = Some v200" "0 < v200" unfolding i_def by blast
  from wf i price have c1: "cell data i 4 = Inr (Some price)"
    using cell_value[of i data 4] by auto
  from wf i10 ten have c2: "cell data (i - 10) 4 = Inr (Some ten)"
    using cell_value[of "i - 10" data 4] by auto
  from i d50(2) v50 have n1: "nth_e dma50 i = Inr (Some v50)" by (simp add: nth_e_def)
  from i d200(2) v200 have n2: "nth_e dma200 i = Inr (Some v200)" by (simp add: nth_e_def)
  from i m(2-4) b(2-4) have n3:
    "emap (\<lambda>xs. nth_e xs i) [ml, ms, mh, bu, bm, bl]
       = Inr [ml ! i, ms ! i, mh ! i, bu ! i, bm ! i, bl ! i]"
    by (simp add: nth_e_def)
  from ten(2) v50(2) v200(2) have ch:
    "weekly_changes (Some price) (Some ten) (Some v50) (Some v200)
       = Inr [Some ((price - ten) / ten * 100), Some ((price - v50) / v50 * 100),
              Some ((price - v200) / v200 * 100), Some ((v50 - v200) / v200 * 100)]"
    by (simp add: weekly_changes_def notna_def pct_change_value)
  have "weekly_body data =
      Inr ([Some price, Some ten, Some v50, Some v200,
            Some ((price - ten) / ten * 100), Some ((price - v50) / v50 * 100),
            Some ((price - v200) / v200 * 100), Some ((v50 - v200) / v200 * 100),
            ml ! i, ms ! i, mh ! i, bu ! i, bm ! i, bl ! i,
            adx ar, plus_di ar, minus_di ar])"
    unfolding weekly_body_def d50(1) d200(1) d20 m(1) b(1) a sum.case prod.case Let_def
      i_def[symmetric] i_10_max c1 c2 n1 n2 n3 ch
    by simp
  with d50(1) d200(1) m(1) b(1) a price ten v50 v200 show ?thesis
    unfolding i_def by blast
qed

lemma round2_zero: "round2 (Some 0) = Some 0"
  by (simp add: round2_def round_half_even_def)

lemma run_strategy_w_snapshot:
  assumes "filter valid_day hist \<noteq> []"
  shows "hist \<noteq> [] \<and> weekly_rows hist \<noteq> [] \<and>
         run_strategy_w hist =
           (case weekly_body (weekly_rows hist) of
              Inl e \<Rightarrow> ErrorRow (''ERROR: '' @ str_of_error e)
            | Inr output_row \<Rightarrow> Snapshot output_row)"
proof -
  from assms have "hist \<noteq> []" by auto
  moreover from assms have "weekly_rows hist \<noteq> []" by (simp add: weekly_rows_def)
  ultimately show ?thesis by (simp add: run_strategy_w_def Let_def)
qed

text \<open>
  Claim C9. On an empty series the daily run returns the single message
  \<^verbatim>\<open>ERROR: No data\<close>; on a series that is not empty and whose rows have their five
  leading columns it returns one row of 17 optional values, in the order price, ten-day
  price, DMA50, DMA200, the four percentage changes, MACD line, signal and histogram,
  Bollinger upper, middle and lower, ADX, +DI, -DI, each rounded to two decimals. The
  weekly run returns a single message when the table is empty or no row passes its
  filter, and otherwise one row of 17 values in the same order.
\<close>

theorem strategy_outcome:
  "run_strategy [] = ErrorRow ''ERROR: No data''
   \<and> (hist \<noteq> [] \<and> (\<forall>row \<in> set hist. 5 \<le> length row) \<longrightarrow>
        (\<exists>dma50 dma200 macd_line macd_signal macd_hist bb_upper bb_middle bb_lower
            adx_results output_row.
           moving_avg hist (min 50 (length hist)) 4 = Inr dma50 \<and>
           moving_avg hist (min 200 (length hist)) 4 = Inr dma200 \<and>
           macd hist 4 = Inr (macd_line, macd_signal, macd_hist) \<and>
           boll_bands hist 4 20 (Some 2) = Inr (bb_upper, bb_middle, bb_lower) \<and>
           calculate_adx hist 14 = Inr adx_results \<and>
           run_strategy hist = Snapshot output_row \<and> length output_row = 17 \<and>
           output_row =
             map round2
               ([hist ! (length hist - 1) ! 4, hist ! (length hist - 1 - 10) ! 4,
                 dma50 ! (length hist - 1), dma200 ! (length hist - 1)]
                @ daily_changes (hist ! (length hist - 1) ! 4) (hist ! (length hist - 1 - 10) ! 4)
                    (dma50 ! (length hist - 1)) (dma200 ! (length hist - 1))
                @ [macd_line ! (length hist - 1), macd_signal ! (length hist - 1),
                   macd_hist ! (length hist - 1), bb_upper ! (length hist - 1),
                   bb_middle ! (length hist - 1), bb_lower ! (length hist - 1)]
                @ [adx adx_results, plus_di adx_results, minus_di adx_results])))
   \<and> run_strategy_w [] = ErrorRow ''ERROR: No data''
   \<and> (bars \<noteq> [] \<and> filter valid_day bars = [] \<longrightarrow>
        run_strategy_w bars = ErrorRow ''ERROR: No valid trading days'')
   \<and> (filter valid_day bars \<noteq> [] \<longrightarrow>
        (\<exists>dma50 dma200 macd_line macd_signal macd_hist bb_upper bb_middle bb_lower
            adx_results price ten d50 d200 output_row.
           moving_avg (weekly_rows bars) (min 50 (length (weekly_rows bars))) 4 = Inr dma50 \<and>
           moving_avg (weekly_rows bars) (min 200 (length (weekly_rows bars))) 4 = Inr dma200 \<and>
           macd (weekly_rows bars) 4 = Inr (macd_line, macd_signal, macd_hist) \<and>
           boll_bands (weekly_rows bars) 4 20 (Some 2) = Inr (bb_upper, bb_middle, bb_lower) \<and>
           calculate_adx (weekly_rows bars) 14 = Inr adx_results \<and>
           weekly_rows bars ! (length (weekly_rows bars) - 1) ! 4 = Some price \<and>
           weekly_rows bars ! (length (weekly_rows bars) - 1 - 10) ! 4 = Some ten \<and>
           dma50 ! (length (weekly_rows bars) - 1) = Some d50 \<and>
           dma200 ! (length (weekly_rows bars) - 1) = Some d200 \<and>
           run_strategy_w bars = Snapshot output_row \<and> length output_row = 17 \<and>
           output_row =
             [Some price, Some ten, Some d50, Some d200,
              Some ((price - ten) / ten * 100), Some ((price - d50) / d50 * 100),
              Some ((price - d200) / d200 * 100), Some ((d50 - d200) / d200 * 100),
              macd_line ! (length (weekly_rows bars) - 1),
              macd_signal ! (length (weekly_rows bars) - 1),
              macd_hist ! (length (weekly_rows bars) - 1),
              bb_upper ! (length (weekly_rows bars) - 1),
              bb_middle ! (length (weekly_rows bars) - 1),
              bb_lower ! (length (weekly_rows bars) - 1),
              adx adx_results, plus_di adx_results, minus_di adx_results]))"
proof (intro conjI impI)
  show "run_strategy [] = ErrorRow ''ERROR: No data''"
    by (simp add: run_strategy_def run_body_def)
next
  assume h: "hist \<noteq> [] \<and> (\<forall>row \<in> set hist. 5 \<le> length row)"
  then have h1: "hist \<noteq> []" and h2: "\<forall>row \<in> set hist. 5 \<le> length row" by simp_all
  from run_body_snapshot[OF h1 h2] obtain dma50 dma200 macd_line macd_signal macd_hist
      bb_upper bb_middle bb_lower adx_results where
    ind: "moving_avg hist (min 50 (length hist)) 4 = Inr dma50"
      "moving_avg hist (min 200 (length hist)) 4 = Inr dma200"
      "macd hist 4 = Inr (macd_line, macd_signal, macd_hist)"
      "boll_bands hist 4 20 (Some 2) = Inr (bb_upper, bb_middle, bb_lower)"
      "calculate_adx hist 14 = Inr adx_results"
    and body: "run_body hist =
      Inr (map round2
        ([hist ! (length hist - 1) ! 4, hist ! (length hist - 1 - 10) ! 4,
          dma50 ! (length hist - 1), dma200 ! (length hist - 1)]
         @ daily_changes (hist ! (length hist - 1) ! 4) (hist ! (length hist - 1 - 10) ! 4)
             (dma50 ! (length hist - 1)) (dma200 ! (length hist - 1))
         @ [macd_line ! (length hist - 1), macd_signal ! (length hist - 1),
            macd_hist ! (length hist - 1), bb_upper ! (length hist - 1),
            bb_middle ! (length hist - 1), bb_lower ! (length hist - 1)]
         @ [adx adx_results, plus_di adx_results, minus_di adx_results]))"
    by blast
  define output_row where "output_row = map round2
        ([hist ! (length hist - 1) ! 4, hist ! (length hist - 1 - 10) ! 4,
          dma50 ! (length hist - 1), dma200 ! (length hist - 1)]
         @ daily_changes (hist ! (length hist - 1) ! 4) (hist ! (length hist - 1 - 10) ! 4)
             (dma50 ! (length hist - 1)) (dma200 ! (length hist - 1))
         @ [macd_line ! (length hist - 1), macd_signal ! (length hist - 1),
            macd_hist ! (length hist - 1), bb_upper ! (length hist - 1),
            bb_middle ! (length hist - 1), bb_lower ! (length hist - 1)]
         @ [adx adx_results, plus_di adx_results, minus_di adx_results])"
  have len: "length output_row = 17"
    by (simp add: output_row_def daily_changes_def)
  from body have run: "run_strategy hist = Snapshot output_row"
    by (simp add: run_strategy_def output_row_def)
  from ind run len show "\<exists>dma50 dma200 macd_line macd_signal macd_hist bb_upper bb_middle bb_lower
            adx_results output_row.
           moving_avg hist (min 50 (length hist)) 4 = Inr dma50 \<and>
           moving_avg hist (min 200 (length hist)) 4 = Inr dma200 \<and>
           macd hist 4 = Inr (macd_line, macd_signal, macd_hist) \<and>
           boll_bands hist 4 20 (Some 2) = Inr (bb_upper, bb_middle, bb_lower) \<and>
           calculate_adx hist 14 = Inr adx_results \<and>
           run_strategy hist = Snapshot output_row \<and> length output_row = 17 \<and>
           output_row =
             map round2
               ([hist ! (length hist - 1) ! 4, hist ! (length hist - 1 - 10) ! 4,
                 dma50 ! (length hist - 1), dma200 ! (length hist - 1)]
                @ daily_changes (hist ! (length hist - 1) ! 4) (hist ! (length hist - 1 - 10) ! 4)
                    (dma50 ! (length hist - 1)) (dma200 ! (length hist - 1))
                @ [macd_line ! (length hist - 1), macd_signal ! (length hist - 1),
                   macd_hist ! (length hist - 1), bb_upper ! (length hist - 1),
                   bb_middle ! (length hist - 1), bb_lower ! (length hist - 1)]
                @ [adx adx_results, plus_di adx_results, minus_di adx_results])"
    unfolding output_row_def by blast
next
  show "run_strategy_w [] = ErrorRow ''ERROR: No data''"
    by (simp add: run_strategy_w_def)
next
  assume "bars \<noteq> [] \<and> filter valid_day bars = []"
  then show "run_strategy_w bars = ErrorRow ''ERROR: No valid trading days''"
    by (simp add: run_strategy_w_def weekly_rows_def)
next
  assume v: "filter valid_day bars \<noteq> []"
  define data where "data = weekly_rows bars"
  from run_strategy_w_snapshot[OF v] have ne: "data \<noteq> []"
    and run: "run_strategy_w bars =
           (case weekly_body data of
              Inl e \<Rightarrow> ErrorRow (''ERROR: '' @ str_of_error e)
            | Inr output_row \<Rightarrow> Snapshot output_row)"
    unfolding data_def by simp_all
  have wf: "\<forall>row \<in> set data. length row = 6 \<and> (\<exists>v. 0 < v \<and> row ! 4 = Some v)"
    unfolding data_def by (rule weekly_rows_wf)
  from weekly_body_snapshot[OF ne wf] obtain dma50 dma200 macd_line macd_signal macd_hist
      bb_upper bb_middle bb_lower adx_results price ten d50 d200 where
    ind: "moving_avg data (min 50 (length data)) 4 = Inr dma50"
      "moving_avg data (min 200 (length data)) 4 = Inr dma200"
      "macd data 4 = Inr (macd_line, macd_signal, macd_hist)"
      "boll_bands data 4 20 (Some 2) = Inr (bb_upper, bb_middle, bb_lower)"
      "calculate_adx data 14 = Inr adx_results"
      "data ! (length data - 1) ! 4 = Some price"
      "data ! (length data - 1 - 10) ! 4 = Some ten"
      "dma50 ! (length data - 1) = Some d50"
      "dma200 ! (length data - 1) = Some d200"
    and body: "weekly_body data =
      Inr ([Some price, Some ten, Some d50, Some d200,
            Some ((price - ten) / ten * 100), Some ((price - d50) / d50 * 100),
            Some ((price - d200) / d200 * 100), Some ((d50 - d200) / d200 * 100),
            macd_line ! (length data - 1), macd_signal ! (length data - 1),
            macd_hist ! (length data - 1), bb_upper ! (length data - 1),
            bb_middle ! (length data - 1), bb_lower ! (length data - 1),
            adx adx_results, plus_di adx_results, minus_di adx_results])"
    by blast
  from run body have r: "run_strategy_w bars = Snapshot [Some price, Some ten, Some d50, Some d200,
            Some ((price - ten) / ten * 100), Some ((price - d50) / d50 * 100),
            Some ((price - d200) / d200 * 100), Some ((d50 - d200) / d200 * 100),
            macd_line ! (length data - 1), macd_signal ! (length data - 1),
            macd_hist ! (length data - 1), bb_upper ! (length data - 1),
            bb_middle ! (length data - 1), bb_lower ! (length data - 1),
            adx adx_results, plus_di adx_results, minus_di adx_results]"
    by simp
  have "length [Some price, Some ten, Some d50, Some d200,
            Some ((price - ten) / ten * 100), Some ((price - d50) / d50 * 100),
            Some ((price - d200) / d200 * 100), Some ((d50 - d200) / d200 * 100),
            macd_line ! (length data - 1), macd_signal ! (length data - 1),
            macd_hist ! (length data - 1), bb_upper ! (length data - 1),
            bb_middle ! (length data - 1), bb_lower ! (length data - 1),
            adx adx_results, plus_di adx_results, minus_di adx_results] = 17" by simp
  with ind r show "\<exists>dma50 dma200 macd_line macd_signal macd_hist bb_upper bb_middle bb_lower
            adx_results price ten d50 d200 output_row.
           moving_avg (weekly_rows bars) (min 50 (length (weekly_rows bars))) 4 = Inr dma50 \<and>
           moving_avg (weekly_rows bars) (min 200 (length (weekly_rows bars))) 4 = Inr dma200 \<and>
           macd (weekly_rows bars) 4 = Inr (macd_line, macd_signal, macd_hist) \<and>
           boll_bands (weekly_rows bars) 4 20 (Some 2) = Inr (bb_upper, bb_middle, bb_lower) \<and>
           calculate_adx (weekly_rows bars) 14 = Inr adx_results \<and>
           weekly_rows bars ! (length (weekly_rows bars) - 1) ! 4 = Some price \<and>
           weekly_rows bars ! (length (weekly_rows bars) - 1 - 10) ! 4 = Some ten \<and>
           dma50 ! (length (weekly_rows bars) - 1) = Some d50 \<and>
           dma200 ! (length (weekly_rows bars) - 1) = Some d200 \<and>
           run_strategy_w bars = Snapshot output_row \<and> length output_row = 17 \<and>
           output_row =
             [Some price, Some ten, Some d50, Some d200,
              Some ((price - ten) / ten * 100), Some ((price - d50) / d50 * 100),
              Some ((price - d200) / d200 * 100), Some ((d50 - d200) / d200 * 100),
              macd_line ! (length (weekly_rows bars) - 1),
              macd_signal ! (length (weekly_rows bars) - 1),
              macd_hist ! (length (weekly_rows bars) - 1),
              bb_upper ! (length (weekly_rows bars) - 1),
              bb_middle ! (length (weekly_rows bars) - 1),
              bb_lower ! (length (weekly_rows bars) - 1),
              adx adx_results, plus_di adx_results, minus_di adx_results]"
    unfolding data_def by blast
qed

theorem strategy_outcome_witness:
  "run_strategy [] = ErrorRow ''ERROR: No data''
   \<and> (\<exists>output_row.
        run_strategy [[NaN, Some 1, Some 3, Some 1, Some 2, Some 1],
                      [NaN, Some 1, Some 3, Some 1, Some 3, Some 1]] = Snapshot output_row \<and>
        length output_row = 17)
   \<and> run_strategy_w
        [\<lparr>Open = Some 1, High = Some 3, Low = Some 1, Close = Some 0, Volume = Some 10\<rparr>]
       = ErrorRow ''ERROR: No valid trading days''
   \<and> (\<exists>output_row.
        run_strategy_w
          [\<lparr>Open = Some 1, High = Some 3, Low = Some 1, Close = Some 2, Volume = Some 10\<rparr>,
           \<lparr>Open = Some 1, High = Some 3, Low = Some 1, Close = Some 0, Volume = Some 10\<rparr>,
           \<lparr>Open = Some 1, High = Some 3, Low = Some 1, Close = Some 3, Volume = Some 10\<rparr>]
          = Snapshot output_row \<and>
        length output_row = 17)"
proof -
  let ?H = "[[NaN, Some 1, Some 3, Some 1, Some 2, Some 1],
             [NaN, Some 1, Some 3, Some 1, Some 3, Some 1]] :: fl list list"
  let ?E = "[\<lparr>Open = Some 1, High = Some 3, Low = Some 1, Close = Some 0, Volume = Some 10\<rparr>]"
  let ?B = "[\<lparr>Open = Some 1, High = Some 3, Low = Some 1, Close = Some 2, Volume = Some 10\<rparr>,
            \<lparr>Open = Some 1, High = Some 3, Low = Some 1, Close = Some 0, Volume = Some 10\<rparr>,
            \<lparr>Open = Some 1, High = Some 3, Low = Some 1, Close = Some 3, Volume = Some 10\<rparr>]"
  have h: "?H \<noteq> [] \<and> (\<forall>row \<in> set ?H. 5 \<le> length row)" by simp
  have b0: "?E \<noteq> [] \<and> filter valid_day ?E = []" by (simp add: valid_day_def fgt_def)
  have b: "filter valid_day ?B \<noteq> []" by (simp add: valid_day_def fgt_def)
  note t = strategy_outcome[of ?H ?B]
  note t0 = strategy_outcome[of ?H ?E]
  from t[THEN conjunct1] have c1: "run_strategy [] = ErrorRow ''ERROR: No data''" .
  from t[THEN conjunct2, THEN conjunct1, THEN mp, OF h]
  have c2: "\<exists>output_row. run_strategy ?H = Snapshot output_row \<and> length output_row = 17"
    by blast
  from t0[THEN conjunct2, THEN conjunct2, THEN conjunct2, THEN conjunct1, THEN mp, OF b0]
  have c3: "run_strategy_w ?E = ErrorRow ''ERROR: No valid trading days''" .
  from t[THEN conjunct2, THEN conjunct2, THEN conjunct2, THEN conjunct2, THEN mp, OF b]
  have c4: "\<exists>output_row. run_strategy_w ?B = Snapshot output_row \<and> length output_row = 17"
    by blast
  from c1 c2 c3 c4 show ?thesis by (intro conjI)
qed

section \<open>The percentage changes\<close>







section \<open>The signal line\<close>







end
